theory Spec2Isabelle
  imports Complex_Main
begin

section \<open>Conventions of the embedding\<close>

text \<open>
  The program is \<^verbatim>\<open>computeEpilogosPart2_perChrom.cpp\<close>: three models (\<^verbatim>\<open>KLModel\<close>,
  \<^verbatim>\<open>KLsModel\<close>, \<^verbatim>\<open>KLssModel\<close>) behind one interface, a background loader
  (\<^verbatim>\<open>getQcontrib\<close>), a per-token accumulator (\<^verbatim>\<open>processInputValue\<close>), an evaluator
  (\<^verbatim>\<open>computeAndWriteMetric\<close>) and the driver \<^verbatim>\<open>parseInputWriteOutput\<close>.

  \<^item> A class is a record of its members; the protected members of \<^verbatim>\<open>KLModel\<close> that the two
    subclasses inherit are the record \<open>Model_base\<close>, which each model's record extends.
  \<^item> An \<^verbatim>\<open>unsigned int\<close> is a natural number; where the source can wrap around
    (a subtraction that may pass zero, a product of group sizes, the line and column
    counters of the matrix reader) the reduction modulo \<open>2 ^ 32\<close> is written out.
  \<^item> \<^verbatim>\<open>float\<close> and \<^verbatim>\<open>double\<close> values are real numbers. In the derivation of the group
    sizes and of the number of states of variant 3, where the single-precision operations
    decide an integer, every operation is rounded as IEEE 754 prescribes (\<open>binary32\<close> for
    \<^verbatim>\<open>float\<close>, \<open>binary64\<close> for \<^verbatim>\<open>double\<close>, to nearest, ties to even). Elsewhere (the
    logarithms, the terms of the metric, the double-precision square roots of the small
    counts behind the number of states of variant 2 and its table) the arithmetic is
    exact. Infinities and NaN are not represented. \<^verbatim>\<open>log\<close> is \<open>ln\<close>.
  \<^item> A \<^verbatim>\<open>vector\<close> is a list. Reading or writing a vector outside its range, dereferencing
    an \<^verbatim>\<open>end()\<close> iterator or a null pointer, and dividing an integer by zero are undefined
    in the source; the model makes each of them a result \<open>Inl\<close> of its own.
  \<^item> A \<^verbatim>\<open>std::map\<close> is an association list kept in increasing key order, which is the
    order in which the source iterates; a \<^verbatim>\<open>std::set\<close> is an increasing list.
  \<^item> An input file is the list of its lines, a line the list of the integers that
    \<^verbatim>\<open>strtok\<close> and \<^verbatim>\<open>atoi\<close>/\<^verbatim>\<open>atol\<close> produce from it. An output stream is the list of the
    records written to it, oldest first; the formatting of numbers as text is not modelled.
\<close>

datatype error =
    FileEmpty                    \<comment> \<open>"File ... is empty."\<close>
  | MultipleLines                \<comment> \<open>"File ... contains multiple lines of data"\<close>
  | NumStatesMismatch nat nat    \<comment> \<open>the two background files imply different numbers of states\<close>
  | ParseLineFailed nat          \<comment> \<open>"Failed to parse line ..." (matrix background)\<close>
  | RowTooShort nat nat nat      \<comment> \<open>columns on line 1, columns found, line number\<close>
  | RowTooLong nat nat           \<comment> \<open>columns on line 1, line number\<close>
  | ExcessColumns nat            \<comment> \<open>"Found excess columns in a line of input; expected ..."\<close>
  | ColumnCount nat nat          \<comment> \<open>"Expected to find ... columns ..., but instead found ..."\<close>
  | OutOfRange                   \<comment> \<open>undefined: vector index or iterator out of range\<close>
  | NullPointer                  \<comment> \<open>undefined: \<^verbatim>\<open>atoi\<close>/\<^verbatim>\<open>atol\<close> of the null pointer\<close>
  | DivideByZero                 \<comment> \<open>undefined: integer remainder by zero\<close>
  | UndefinedConversion          \<comment> \<open>undefined: a floating value outside \<^verbatim>\<open>unsigned int\<close>\<close>

definition bindE :: "error + 'a \<Rightarrow> ('a \<Rightarrow> error + 'b) \<Rightarrow> error + 'b" where
  "bindE m f = (case m of Inl e \<Rightarrow> Inl e | Inr v \<Rightarrow> f v)"

text \<open>\<open>vec_at xs i\<close> is the read \<^verbatim>\<open>xs[i]\<close> of a vector.\<close>

definition vec_at :: "'a list \<Rightarrow> nat \<Rightarrow> error + 'a" where
  "vec_at xs i = (if i < length xs then Inr (xs ! i) else Inl OutOfRange)"

text \<open>A counted loop whose body may fail: the first failure ends it.\<close>

fun loopE :: "('i \<Rightarrow> 'a \<Rightarrow> error + 'a) \<Rightarrow> 'i list \<Rightarrow> 'a \<Rightarrow> error + 'a" where
  "loopE f [] acc = Inr acc"
| "loopE f (i # is) acc = bindE (f i acc) (loopE f is)"

text \<open>Unsigned 32-bit subtraction and the conversion of an unsigned value to \<^verbatim>\<open>int\<close>.\<close>

definition usub32 :: "nat \<Rightarrow> nat \<Rightarrow> nat" where
  "usub32 a b = (a + 2 ^ 32 - b mod 2 ^ 32) mod 2 ^ 32"

definition to_int32 :: "nat \<Rightarrow> int" where
  "to_int32 v = (if v mod 2 ^ 32 < 2 ^ 31 then int (v mod 2 ^ 32) else int (v mod 2 ^ 32) - 2 ^ 32)"

text \<open>\<^verbatim>\<open>static_cast<unsigned int>(floor(x))\<close>.\<close>

definition float_to_uint :: "real \<Rightarrow> error + nat" where
  "float_to_uint x = (if 0 \<le> x \<and> x < 2 ^ 32 then Inr (nat \<lfloor>x\<rfloor>) else Inl UndefinedConversion)"

text \<open>
  IEEE 754 rounding to nearest, ties to even. \<open>round_binary p x\<close> is the value with a
  significand of \<open>p\<close> bits nearest to \<open>x\<close>: with \<open>2\<^sup>k \<le> \<bar>x\<bar> < 2\<^sup>k\<^sup>+\<^sup>1\<close> the multiple of
  \<open>2\<^sup>k\<^sup>-\<^sup>p\<^sup>+\<^sup>1\<close> nearest to \<open>x\<close>, the one with the even factor when two are equally near.
  \<open>binary32\<close> is \<^verbatim>\<open>float\<close> (24 bits), \<open>binary64\<close> is \<^verbatim>\<open>double\<close> (53 bits). The range of the
  exponent is not represented: the values rounded here are zero or lie between
  \<open>2\<^sup>-\<^sup>3\<^sup>2\<close> and \<open>2\<^sup>6\<^sup>8\<close>, normal numbers of both formats.
\<close>

definition round_to_even :: "real \<Rightarrow> int" where
  "round_to_even x =
     (if x - of_int \<lfloor>x\<rfloor> < 1 / 2 then \<lfloor>x\<rfloor>
      else if 1 / 2 < x - of_int \<lfloor>x\<rfloor> then \<lfloor>x\<rfloor> + 1
      else if even \<lfloor>x\<rfloor> then \<lfloor>x\<rfloor> else \<lfloor>x\<rfloor> + 1)"

definition round_binary :: "nat \<Rightarrow> real \<Rightarrow> real" where
  "round_binary p x =
     (if x = 0 then 0
      else let e = \<lfloor>log 2 \<bar>x\<bar>\<rfloor> - int p + 1
           in of_int (round_to_even (x / 2 powi e)) * 2 powi e)"

definition binary32 :: "real \<Rightarrow> real" where
  "binary32 = round_binary 24"

definition binary64 :: "real \<Rightarrow> real" where
  "binary64 = round_binary 53"

text \<open>The constant \<^verbatim>\<open>LOG2(0.6931471806)\<close>.\<close>

definition LOG2 :: real where
  "LOG2 = 6931471806 / 10000000000"

text \<open>
  \<^verbatim>\<open>max_element(first, last, FloatAbs_LT)\<close>: the position of the first element of greatest
  absolute value; on an empty range the iterator \<^verbatim>\<open>end()\<close>, which the callers dereference.
\<close>

fun max_element_scan :: "real list \<Rightarrow> nat \<Rightarrow> nat \<Rightarrow> real \<Rightarrow> nat" where
  "max_element_scan [] i largest v = largest"
| "max_element_scan (y # ys) i largest v =
     (if \<bar>v\<bar> < \<bar>y\<bar> then max_element_scan ys (i + 1) i y
      else max_element_scan ys (i + 1) largest v)"

definition max_element_abs :: "real list \<Rightarrow> error + nat" where
  "max_element_abs xs = (case xs of [] \<Rightarrow> Inl OutOfRange | x # ys \<Rightarrow> Inr (max_element_scan ys 1 0 x))"

section \<open>Data model\<close>

text \<open>The records written to the three output streams.\<close>

datatype obs_line =
    ObsState string int int nat real int real
      \<comment> \<open>chromosome, begin, end, dominant state, its magnitude, its sign, \<^verbatim>\<open>retVal\<close>\<close>
  | ObsStatePair string int int nat real int "nat \<times> nat" real int real
      \<comment> \<open>as above, with the dominant pair \<open>(s1, s2)\<close>, its magnitude and sign before \<^verbatim>\<open>retVal\<close>\<close>

datatype scores_line = Scores string int int "real list"

fun obs_retVal :: "obs_line \<Rightarrow> real" where
  "obs_retVal (ObsState c b e s a sg r) = r"
| "obs_retVal (ObsStatePair c b e s a sg p pa psg r) = r"

definition sign_text :: "real \<Rightarrow> int" where
  "sign_text x = (if x > 0 then 1 else -1)"

record Model_base =
  m_numStates :: nat
  m_size :: nat
  m_group1size :: nat
  m_group2size :: nat
  m_numValsProcessedForGroup1 :: nat
  m_numValsProcessedForGroup2 :: nat
  m_writeNullMetric :: bool
  m_ofsObs :: "obs_line list"
  m_ofsNullValues :: "real list"
  m_ofsScores :: "scores_line list"
  m_chrom :: string
  m_curBegPos :: int
  m_curEndPos :: int

record KL_state = Model_base +
  m_P1numerators :: "nat list"
  m_P2numerators :: "nat list"
  m_Q1contrib :: "real list"
  m_Q2contrib :: "real list"
  m_logsOfObservationTallies :: "real list"

text \<open>The locals of an evaluation that outlive its loop.\<close>

record eval_acc =
  retVal :: real
  contribOfEachState :: "real list"

section \<open>Variant 1: \<^verbatim>\<open>KLModel\<close>\<close>

text \<open>The contribution stored for one background tally.\<close>

definition Qcontrib_of :: "nat \<Rightarrow> nat \<Rightarrow> real" where
  "Qcontrib_of Nsites thisNumTallies =
     (if thisNumTallies = 0 then - 999999 else ln (real Nsites) - ln (real thisNumTallies))"

text \<open>
  \<^verbatim>\<open>floor(static_cast<float>(total) / static_cast<float>(Nsites) + 0.01)\<close> converted to
  \<^verbatim>\<open>unsigned int\<close>: the two conversions and the quotient are in single precision, the sum
  with the \<^verbatim>\<open>double\<close> constant \<^verbatim>\<open>0.01\<close> in double precision. With \<open>Nsites = 0\<close> the quotient
  is infinite or NaN and the conversion undefined.
\<close>

definition KL_groupSize :: "nat \<Rightarrow> nat \<Rightarrow> error + nat" where
  "KL_groupSize totalNumTallies Nsites =
     (if Nsites = 0 then Inl UndefinedConversion
      else float_to_uint
             (of_int \<lfloor>binary64 (binary32 (binary32 (real totalNumTallies) / binary32 (real Nsites))
                                 + binary64 (1 / 100))\<rfloor>))"

text \<open>
  The table of logarithms: built on the first call, extended on the second when group 2
  is larger. \<^verbatim>\<open>size() - 1\<close> is unsigned.
\<close>

definition extend_logs :: "real list \<Rightarrow> nat \<Rightarrow> nat \<Rightarrow> nat \<Rightarrow> real list" where
  "extend_logs logs group2size bound1 bound2 =
     (if group2size = 0
      then logs @ [0] @ map (\<lambda>i. ln (real i)) [1..<bound1 + 1]
      else if bound2 > (if length logs = 0 then 2 ^ 64 - 1 else length logs - 1)
           then logs @ map (\<lambda>i. ln (real i)) [length logs..<bound2 + 1]
           else logs)"

definition KL_getQcontrib :: "KL_state \<Rightarrow> nat list list \<Rightarrow> nat \<Rightarrow> error + KL_state" where
  "KL_getQcontrib st infile Nsites =
     (case infile of
        [] \<Rightarrow> Inl FileEmpty
      | line # rest \<Rightarrow>
          if line = [] then Inl NullPointer
          else
            let totalNumTallies = sum_list line mod 2 ^ 64;
                st1 = (if m_group1size st = 0
                       then st\<lparr>m_Q1contrib := m_Q1contrib st @ map (Qcontrib_of Nsites) line\<rparr>
                       else st\<lparr>m_Q2contrib := m_Q2contrib st @ map (Qcontrib_of Nsites) line\<rparr>)
            in if rest \<noteq> [] then Inl MultipleLines
               else
                 bindE (if m_group1size st1 = 0
                        then Inr (st1\<lparr>m_numStates := length (m_Q1contrib st1)\<rparr>)
                        else if length (m_Q2contrib st1) \<noteq> m_numStates st1
                             then Inl (NumStatesMismatch (m_numStates st1) (length (m_Q2contrib st1)))
                             else Inr st1) (\<lambda>st2.
                 bindE (KL_groupSize totalNumTallies Nsites) (\<lambda>g.
                   let st3 = (if m_group1size st2 = 0
                              then st2\<lparr>m_group1size := g,
                                       m_P1numerators := replicate (length (m_Q1contrib st2)) 0\<rparr>
                              else st2\<lparr>m_group2size := g,
                                       m_P2numerators := replicate (length (m_Q2contrib st2)) 0\<rparr>);
                       st4 = st3\<lparr>m_logsOfObservationTallies :=
                                   extend_logs (m_logsOfObservationTallies st3) (m_group2size st3)
                                     (m_group1size st3) (m_group2size st3)\<rparr>
                   in Inr (st4\<lparr>m_size := length (m_P1numerators st4) + length (m_P2numerators st4)\<rparr>))))"

text \<open>
  \<^verbatim>\<open>processInputValue\<close>. The source returns \<^verbatim>\<open>false\<close> before it has changed any member,
  so a failure carries no state.
\<close>

definition KL_processInputValue :: "KL_state \<Rightarrow> nat \<Rightarrow> error + KL_state" where
  "KL_processInputValue st thisTally =
     (if \<not> m_writeNullMetric st \<and> m_numValsProcessedForGroup1 st = 0 \<and> m_curBegPos st = - 1
      then Inr (st\<lparr>m_curBegPos := to_int32 thisTally\<rparr>)
      else if \<not> m_writeNullMetric st \<and> m_numValsProcessedForGroup1 st = 0 \<and> m_curEndPos st = - 1
      then Inr (st\<lparr>m_curEndPos := to_int32 thisTally\<rparr>)
      else if m_numValsProcessedForGroup1 st = m_numStates st \<and> m_group2size st = 0
      then Inl (ExcessColumns (m_numStates st))
      else if m_numValsProcessedForGroup1 st = m_numStates st
              \<and> m_numValsProcessedForGroup2 st = m_numStates st
      then Inl (ExcessColumns (m_numStates st * 2))
      else if m_numValsProcessedForGroup1 st \<noteq> m_numStates st
      then (if m_numValsProcessedForGroup1 st < length (m_P1numerators st)
            then Inr (st\<lparr>m_P1numerators := (m_P1numerators st)[m_numValsProcessedForGroup1 st := thisTally],
                        m_numValsProcessedForGroup1 := m_numValsProcessedForGroup1 st + 1\<rparr>)
            else Inl OutOfRange)
      else (if m_numValsProcessedForGroup2 st < length (m_P2numerators st)
            then Inr (st\<lparr>m_P2numerators := (m_P2numerators st)[m_numValsProcessedForGroup2 st := thisTally],
                        m_numValsProcessedForGroup2 := m_numValsProcessedForGroup2 st + 1\<rparr>)
            else Inl OutOfRange))"

text \<open>
  The body of the evaluation loop for identifier \<open>i\<close>: the value of \<^verbatim>\<open>term\<close> at the end
  of the iteration.
\<close>

definition KL_denom :: "nat \<Rightarrow> real" where
  "KL_denom groupsize = LOG2 * real groupsize"

definition KL_term :: "KL_state \<Rightarrow> nat \<Rightarrow> error + real" where
  "KL_term st i =
     bindE (vec_at (m_P1numerators st) i) (\<lambda>p1.
     bindE (if p1 \<noteq> 0
            then bindE (vec_at (m_Q1contrib st) i) (\<lambda>q1.
                   if q1 < - 999 then Inr q1
                   else bindE (vec_at (m_logsOfObservationTallies st) p1) (\<lambda>lg.
                          Inr (0 + (real p1 / KL_denom (m_group1size st)) * (lg + q1))))
            else Inr 0) (\<lambda>term1.
     if m_group2size st \<noteq> 0
     then bindE (vec_at (m_P2numerators st) i) (\<lambda>p2.
            if p2 \<noteq> 0
            then bindE (vec_at (m_Q2contrib st) i) (\<lambda>q2.
                   if q2 < - 999 then Inr (- q2)
                   else bindE (vec_at (m_logsOfObservationTallies st) p2) (\<lambda>lg.
                          Inr (term1 - (real p2 / KL_denom (m_group2size st)) * (lg + q2))))
            else Inr term1)
     else Inr term1))"

definition KL_step :: "KL_state \<Rightarrow> nat \<Rightarrow> eval_acc \<Rightarrow> error + eval_acc" where
  "KL_step st i acc =
     bindE (KL_term st i) (\<lambda>t.
     bindE (if \<not> m_writeNullMetric st
            then (if i < length (contribOfEachState acc)
                  then Inr (acc\<lparr>contribOfEachState := (contribOfEachState acc)[i := t]\<rparr>)
                  else Inl OutOfRange)
            else Inr acc) (\<lambda>acc1.
     Inr (acc1\<lparr>retVal := retVal acc1 + (if m_group2size st = 0 then t else \<bar>t\<bar>)\<rparr>)))"

definition KL_metric :: "KL_state \<Rightarrow> error + eval_acc" where
  "KL_metric st =
     loopE (KL_step st) [0..<length (m_P1numerators st)]
       \<lparr>retVal = 0, contribOfEachState = replicate (m_numStates st) 0\<rparr>"

definition KL_reset :: "KL_state \<Rightarrow> KL_state" where
  "KL_reset st =
     st\<lparr>m_numValsProcessedForGroup1 := 0, m_numValsProcessedForGroup2 := 0,
        m_curBegPos := - 1, m_curEndPos := - 1,
        m_P1numerators := replicate (length (m_P1numerators st)) 0,
        m_P2numerators := (if m_P2numerators st \<noteq> []
                           then replicate (length (m_P2numerators st)) 0
                           else m_P2numerators st)\<rparr>"

definition KL_computeAndWriteMetric :: "KL_state \<Rightarrow> error + KL_state" where
  "KL_computeAndWriteMetric st =
     bindE (KL_metric st) (\<lambda>acc.
     bindE (if \<not> m_writeNullMetric st
            then bindE (max_element_abs (contribOfEachState acc)) (\<lambda>k.
                   Inr (st\<lparr>m_ofsObs := m_ofsObs st @
                              [ObsState (m_chrom st) (m_curBegPos st) (m_curEndPos st) (k + 1)
                                 \<bar>contribOfEachState acc ! k\<bar>
                                 (sign_text (contribOfEachState acc ! k)) (retVal acc)],
                           m_ofsScores := m_ofsScores st @
                              [Scores (m_chrom st) (m_curBegPos st) (m_curEndPos st)
                                 (contribOfEachState acc)]\<rparr>))
            else Inr (st\<lparr>m_ofsNullValues := m_ofsNullValues st @ [retVal acc]\<rparr>)) (\<lambda>st1.
     Inr (KL_reset st1)))"

section \<open>Variant 2: \<^verbatim>\<open>KLsModel\<close>\<close>

record KLs_state = Model_base +
  m_Ps1numerators :: "nat list"
  m_Ps2numerators :: "nat list"
  m_Qs1contrib :: "real list"
  m_Qs2contrib :: "real list"
  m_logsOfObservationTallies_s :: "real list"
  m_unorderedStatePairDecompositions :: "(nat \<times> nat) list"

record KLs_acc = eval_acc +
  contribOfMaxStatePairTerm :: real
  statePairWithMaxTerm_1based :: nat

text \<open>\<^verbatim>\<open>g*(g-1)/2\<close> in \<^verbatim>\<open>unsigned int\<close>.\<close>

definition pairs32 :: "nat \<Rightarrow> nat" where
  "pairs32 g = (g * usub32 g 1) mod 2 ^ 32 div 2"

text \<open>\<^verbatim>\<open>floor((sqrt(1. + 8.*x) - 1.)/2. + 0.01)\<close>: the number of states for \<open>x\<close> tallies.\<close>

definition KLs_numStates :: "nat \<Rightarrow> nat" where
  "KLs_numStates x = nat \<lfloor>(sqrt (1 + 8 * real x) - 1) / 2 + 1 / 100\<rfloor>"

text \<open>
  \<^verbatim>\<open>floor((sqrt(1. + 8.*static_cast<float>(total)/static_cast<float>(Nsites)) + 1.)/2. + 0.01)\<close>:
  the two conversions are in single precision, the product with \<^verbatim>\<open>8.\<close> and every later
  operation in double precision.
\<close>

definition KLs_groupSize :: "nat \<Rightarrow> nat \<Rightarrow> error + nat" where
  "KLs_groupSize totalNumTallies Nsites =
     (if Nsites = 0 then Inl UndefinedConversion
      else
        let x = binary64 (binary64 (8 * binary32 (real totalNumTallies)) / binary32 (real Nsites));
            root = binary64 (sqrt (binary64 (1 + x)));
            half = binary64 (binary64 (root + 1) / 2)
        in float_to_uint (of_int \<lfloor>binary64 (half + binary64 (1 / 100))\<rfloor>))"

text \<open>The lookup table from unordered state pairs to their states.\<close>

definition delta_row_of :: "nat \<Rightarrow> nat" where
  "delta_row_of delta = nat \<lfloor>(- 1 + sqrt (1 + 8 * real delta)) / 2 + 1 / 100\<rfloor>"

definition delta_column_of :: "nat \<Rightarrow> nat" where
  "delta_column_of delta =
     (if delta \<le> 2 then (if delta = 2 then 1 else 0)
      else usub32 delta ((delta_row_of delta * (delta_row_of delta + 1)) mod 2 ^ 32 div 2))"

definition decomposition_step :: "nat \<Rightarrow> nat \<Rightarrow> nat \<Rightarrow> (nat \<times> nat) list \<Rightarrow> error + (nat \<times> nat) list" where
  "decomposition_step numStates maxUniqueStatePairID delta tbl =
     (if maxUniqueStatePairID - delta < length tbl
      then Inr (tbl[maxUniqueStatePairID - delta :=
                      (usub32 numStates (delta_row_of delta), usub32 numStates (delta_column_of delta))])
      else Inl OutOfRange)"

definition unorderedStatePairDecompositions_of :: "nat \<Rightarrow> error + (nat \<times> nat) list" where
  "unorderedStatePairDecompositions_of numStates =
     (let maxUniqueStatePairID = usub32 ((numStates * (numStates + 1)) mod 2 ^ 32 div 2) 1
      in loopE (decomposition_step numStates maxUniqueStatePairID) [0..<maxUniqueStatePairID + 1]
           (replicate ((maxUniqueStatePairID + 1) mod 2 ^ 32) (0, 0)))"

definition KLs_getQcontrib :: "KLs_state \<Rightarrow> nat list list \<Rightarrow> nat \<Rightarrow> error + KLs_state" where
  "KLs_getQcontrib st infile Nsites =
     (case infile of
        [] \<Rightarrow> Inl FileEmpty
      | line # rest \<Rightarrow>
          if line = [] then Inl NullPointer
          else
            let totalNumTallies = sum_list line mod 2 ^ 64;
                st1 = (if m_group1size st = 0
                       then st\<lparr>m_Qs1contrib := m_Qs1contrib st @ map (Qcontrib_of Nsites) line\<rparr>
                       else st\<lparr>m_Qs2contrib := m_Qs2contrib st @ map (Qcontrib_of Nsites) line\<rparr>)
            in if rest \<noteq> [] then Inl MultipleLines
               else
                 bindE (if m_group1size st1 = 0
                        then Inr (st1\<lparr>m_numStates := KLs_numStates (length (m_Qs1contrib st1))\<rparr>)
                        else if KLs_numStates (length (m_Qs2contrib st1)) \<noteq> m_numStates st1
                             then Inl (NumStatesMismatch (m_numStates st1)
                                         (KLs_numStates (length (m_Qs2contrib st1))))
                             else Inr st1) (\<lambda>st2.
                 bindE (KLs_groupSize totalNumTallies Nsites) (\<lambda>g.
                   let st3 = (if m_group1size st2 = 0
                              then st2\<lparr>m_group1size := g,
                                       m_Ps1numerators := replicate (length (m_Qs1contrib st2)) 0\<rparr>
                              else st2\<lparr>m_group2size := g,
                                       m_Ps2numerators := replicate (length (m_Qs2contrib st2)) 0\<rparr>);
                       st4 = st3\<lparr>m_logsOfObservationTallies_s :=
                                   extend_logs (m_logsOfObservationTallies_s st3) (m_group2size st3)
                                     (pairs32 (m_group1size st3)) (pairs32 (m_group2size st3))\<rparr>
                   in bindE (unorderedStatePairDecompositions_of (m_numStates st4)) (\<lambda>tbl.
                        Inr (st4\<lparr>m_unorderedStatePairDecompositions := tbl,
                                 m_size := length (m_Ps1numerators st4) + length (m_Ps2numerators st4)\<rparr>)))))"

definition KLs_processInputValue :: "KLs_state \<Rightarrow> nat \<Rightarrow> error + KLs_state" where
  "KLs_processInputValue st thisTally =
     (if \<not> m_writeNullMetric st \<and> m_numValsProcessedForGroup1 st = 0 \<and> m_curBegPos st = - 1
      then Inr (st\<lparr>m_curBegPos := to_int32 thisTally\<rparr>)
      else if \<not> m_writeNullMetric st \<and> m_numValsProcessedForGroup1 st = 0 \<and> m_curEndPos st = - 1
      then Inr (st\<lparr>m_curEndPos := to_int32 thisTally\<rparr>)
      else if m_numValsProcessedForGroup1 st = length (m_Ps1numerators st)
              \<and> m_numValsProcessedForGroup2 st = length (m_Ps2numerators st)
      then Inl (ExcessColumns (m_group1size st + m_group2size st))
      else if m_numValsProcessedForGroup1 st \<noteq> length (m_Ps1numerators st)
      then (if m_numValsProcessedForGroup1 st < length (m_Ps1numerators st)
            then Inr (st\<lparr>m_Ps1numerators := (m_Ps1numerators st)[m_numValsProcessedForGroup1 st := thisTally],
                        m_numValsProcessedForGroup1 := m_numValsProcessedForGroup1 st + 1\<rparr>)
            else Inl OutOfRange)
      else (if m_numValsProcessedForGroup2 st < length (m_Ps2numerators st)
            then Inr (st\<lparr>m_Ps2numerators := (m_Ps2numerators st)[m_numValsProcessedForGroup2 st := thisTally],
                        m_numValsProcessedForGroup2 := m_numValsProcessedForGroup2 st + 1\<rparr>)
            else Inl OutOfRange))"

definition KLs_denom :: "nat \<Rightarrow> real" where
  "KLs_denom groupsize = LOG2 * real groupsize * real (usub32 groupsize 1) / 2"

definition KLs_term :: "KLs_state \<Rightarrow> nat \<Rightarrow> error + real" where
  "KLs_term st uniqueStatePairID =
     bindE (vec_at (m_Ps1numerators st) uniqueStatePairID) (\<lambda>p1.
     bindE (if p1 \<noteq> 0
            then bindE (vec_at (m_Qs1contrib st) uniqueStatePairID) (\<lambda>q1.
                   if q1 < - 999 then Inr q1
                   else bindE (vec_at (m_logsOfObservationTallies_s st) p1) (\<lambda>lg.
                          Inr (0 + (real p1 / KLs_denom (m_group1size st)) * (lg + q1))))
            else Inr 0) (\<lambda>term1.
     if m_group2size st \<noteq> 0
     then bindE (vec_at (m_Ps2numerators st) uniqueStatePairID) (\<lambda>p2.
            if p2 \<noteq> 0
            then bindE (vec_at (m_Qs2contrib st) uniqueStatePairID) (\<lambda>q2.
                   if q2 < - 999 then Inr (- q2)
                   else bindE (vec_at (m_logsOfObservationTallies_s st) p2) (\<lambda>lg.
                          Inr (term1 - (real p2 / KLs_denom (m_group2size st)) * (lg + q2))))
            else Inr term1)
     else Inr term1))"

text \<open>\<^verbatim>\<open>contribOfEachState[k] += x\<close>.\<close>

definition add_at :: "real list \<Rightarrow> nat \<Rightarrow> real \<Rightarrow> error + real list" where
  "add_at xs k x = (if k < length xs then Inr (xs[k := xs ! k + x]) else Inl OutOfRange)"

definition KLs_step :: "KLs_state \<Rightarrow> nat \<Rightarrow> KLs_acc \<Rightarrow> error + KLs_acc" where
  "KLs_step st uniqueStatePairID acc =
     bindE (if \<not> m_writeNullMetric st
            then vec_at (m_unorderedStatePairDecompositions st) uniqueStatePairID
            else Inr (0, 0)) (\<lambda>(stateOfEpi1_1based, stateOfEpi2_1based).
     bindE (KLs_term st uniqueStatePairID) (\<lambda>t.
     bindE (if \<not> m_writeNullMetric st
            then
              let acc1 = (if \<bar>t\<bar> > \<bar>contribOfMaxStatePairTerm acc\<bar>
                          then acc\<lparr>contribOfMaxStatePairTerm := t,
                                   statePairWithMaxTerm_1based := uniqueStatePairID + 1\<rparr>
                          else acc)
              in bindE (add_at (contribOfEachState acc1) (usub32 stateOfEpi1_1based 1) (t / 2)) (\<lambda>c1.
                 bindE (add_at c1 (usub32 stateOfEpi2_1based 1) (t / 2)) (\<lambda>c2.
                 Inr (acc1\<lparr>contribOfEachState := c2\<rparr>)))
            else Inr acc) (\<lambda>acc2.
     Inr (acc2\<lparr>retVal := retVal acc2 + (if m_group2size st = 0 then t else \<bar>t\<bar>)\<rparr>))))"

definition KLs_metric :: "KLs_state \<Rightarrow> error + KLs_acc" where
  "KLs_metric st =
     loopE (KLs_step st) [0..<length (m_Ps1numerators st)]
       \<lparr>retVal = 0, contribOfEachState = replicate (m_numStates st) 0,
        contribOfMaxStatePairTerm = 0, statePairWithMaxTerm_1based = 0\<rparr>"

text \<open>The index of the final read of the decomposition table.\<close>

definition KLs_dominantIndex :: "KLs_acc \<Rightarrow> nat" where
  "KLs_dominantIndex acc = usub32 (statePairWithMaxTerm_1based acc) 1"

definition KLs_reset :: "KLs_state \<Rightarrow> KLs_state" where
  "KLs_reset st =
     st\<lparr>m_numValsProcessedForGroup1 := 0, m_numValsProcessedForGroup2 := 0,
        m_curBegPos := - 1, m_curEndPos := - 1,
        m_Ps1numerators := replicate (length (m_Ps1numerators st)) 0,
        m_Ps2numerators := (if m_Ps2numerators st \<noteq> []
                            then replicate (length (m_Ps2numerators st)) 0
                            else m_Ps2numerators st)\<rparr>"

definition KLs_computeAndWriteMetric :: "KLs_state \<Rightarrow> error + KLs_state" where
  "KLs_computeAndWriteMetric st =
     bindE (KLs_metric st) (\<lambda>acc.
     bindE (if \<not> m_writeNullMetric st
            then bindE (vec_at (m_unorderedStatePairDecompositions st) (KLs_dominantIndex acc)) (\<lambda>(s1, s2).
                 bindE (max_element_abs (contribOfEachState acc)) (\<lambda>k.
                   Inr (st\<lparr>m_ofsObs := m_ofsObs st @
                              [ObsStatePair (m_chrom st) (m_curBegPos st) (m_curEndPos st) (k + 1)
                                 \<bar>contribOfEachState acc ! k\<bar>
                                 (sign_text (contribOfEachState acc ! k))
                                 (s1, s2)
                                 \<bar>contribOfMaxStatePairTerm acc\<bar>
                                 (sign_text (contribOfMaxStatePairTerm acc)) (retVal acc)],
                           m_ofsScores := m_ofsScores st @
                              [Scores (m_chrom st) (m_curBegPos st) (m_curEndPos st)
                                 (contribOfEachState acc)]\<rparr>)))
            else Inr (st\<lparr>m_ofsNullValues := m_ofsNullValues st @ [retVal acc]\<rparr>)) (\<lambda>st1.
     Inr (KLs_reset st1)))"

section \<open>Variant 3: \<^verbatim>\<open>KLssModel\<close>\<close>

text \<open>\<^verbatim>\<open>m[k] = v\<close> on an ordered map, and \<^verbatim>\<open>s.insert(x)\<close> on an ordered set.\<close>

fun omap_update :: "nat \<Rightarrow> 'v \<Rightarrow> (nat \<times> 'v) list \<Rightarrow> (nat \<times> 'v) list" where
  "omap_update k v [] = [(k, v)]"
| "omap_update k v ((k', v') # m) =
     (if k < k' then (k, v) # (k', v') # m
      else if k = k' then (k, v) # m
      else (k', v') # omap_update k v m)"

definition oset_insert :: "nat \<Rightarrow> nat list \<Rightarrow> nat list" where
  "oset_insert x xs = (if x \<in> set xs then xs else insort x xs)"

type_synonym observations = "(nat \<times> nat list) list \<times> (nat \<times> nat list) list"

record KLss_state = Model_base +
  m_Qss1contrib :: "(nat \<times> (nat \<times> real) list) list"
  m_Qss2contrib :: "(nat \<times> (nat \<times> real) list) list"
  m_statePairGroupObservationsAtThisSite :: "(nat \<times> observations) list"

record KLss_acc = eval_acc +
  contribOfMaxStatePairGroupTerm :: real
  statePairGroupWithMaxTerm_1based :: nat

text \<open>
  Reading the rows of the tally matrix: the loop over the lines, with the line counter
  \<^verbatim>\<open>linenum\<close> and the column counter \<^verbatim>\<open>numCols\<close> in \<^verbatim>\<open>unsigned int\<close>, the vector \<^verbatim>\<open>row\<close>
  and the rows pushed onto \<^verbatim>\<open>tallyMatrix\<close>. The line on which the counter is 1 appends
  its tokens to \<^verbatim>\<open>row\<close>. Any other line is copied into \<^verbatim>\<open>row\<close> from its first element
  on; the loop condition takes one more token before it tests the count, so a single
  excess column goes unnoticed. The result is the final \<^verbatim>\<open>linenum\<close>, \<^verbatim>\<open>numCols\<close> and
  \<^verbatim>\<open>tallyMatrix\<close>.
\<close>

fun read_rows :: "nat \<Rightarrow> nat list \<Rightarrow> nat \<Rightarrow> nat list list \<Rightarrow> error + nat \<times> nat \<times> nat list list" where
  "read_rows linenum row numCols [] = Inr (linenum, numCols, [])"
| "read_rows linenum row numCols (tokens # rest) =
     (if tokens = [] then Inl (ParseLineFailed ((linenum + 1) mod 2 ^ 32))
      else if (linenum + 1) mod 2 ^ 32 = 1
      then bindE (read_rows ((linenum + 1) mod 2 ^ 32) (row @ tokens)
                    ((numCols + length tokens) mod 2 ^ 32) rest)
             (\<lambda>(l, n, rows). Inr (l, n, (row @ tokens) # rows))
      else if row = [] then Inl OutOfRange
      else if min (length tokens) (length row) \<noteq> numCols
      then Inl (RowTooShort numCols (min (length tokens) (length row)) ((linenum + 1) mod 2 ^ 32))
      else if length row + 2 \<le> length tokens
      then Inl (RowTooLong numCols ((linenum + 1) mod 2 ^ 32))
      else bindE (read_rows ((linenum + 1) mod 2 ^ 32)
                    (take (length row) tokens @ drop (length tokens) row) numCols rest)
             (\<lambda>(l, n, rows). Inr (l, n, (take (length row) tokens @ drop (length tokens) row) # rows)))"

definition read_tallyMatrix :: "nat list list \<Rightarrow> error + nat \<times> nat \<times> nat list list" where
  "read_tallyMatrix infile = read_rows 0 [] 0 infile"

text \<open>
  \<^verbatim>\<open>floor(sqrt(static_cast<float>(numCols)) + 0.01)\<close>: the argument is a \<^verbatim>\<open>float\<close>, so the
  square root is the single-precision one; the sum is in double precision.
\<close>

definition KLss_numStates :: "nat \<Rightarrow> nat" where
  "KLss_numStates numCols =
     nat \<lfloor>binary64 (binary32 (sqrt (binary32 (real numCols))) + binary64 (1 / 100))\<rfloor>"

text \<open>
  \<^verbatim>\<open>floor(1. + (sqrt(1. + 8.*static_cast<float>(linenum)))/2. + 0.001)\<close>: the conversion
  is in single precision, every operation in double precision.
\<close>

definition KLss_groupSize :: "nat \<Rightarrow> nat" where
  "KLss_groupSize linenum =
     (let root = binary64 (sqrt (binary64 (1 + binary64 (8 * binary32 (real linenum)))));
          half = binary64 (root / 2)
      in nat \<lfloor>binary64 (binary64 (1 + half) + binary64 (1 / 1000))\<rfloor>)"

definition Qss_cell :: "nat \<Rightarrow> real \<Rightarrow> nat \<Rightarrow> real" where
  "Qss_cell Nsites denom tally =
     (if tally \<noteq> 0 then (ln (real Nsites) - ln (real tally)) / denom else 999999)"
text \<open>
  The builder of variant 3. The transposition reads \<^verbatim>\<open>tallyMatrix[r][c]\<close> for every
  \<open>c < numCols\<close>, which is outside a row shorter than \<open>numCols\<close>.
\<close>

definition KLss_getQcontrib :: "KLss_state \<Rightarrow> nat list list \<Rightarrow> nat \<Rightarrow> error + KLss_state" where
  "KLss_getQcontrib st infile Nsites =
     bindE (read_tallyMatrix infile) (\<lambda>(linenum, numCols, tallyMatrix).
       if list_ex (\<lambda>row. length row < numCols) tallyMatrix then Inl OutOfRange
       else
       let intoQss1 = (m_Qss1contrib st = []);
           st1 = (if tallyMatrix = [] then st
                  else st\<lparr>m_numStates := KLss_numStates numCols\<rparr>);
           st2 = (if m_group1size st1 = 0
                  then st1\<lparr>m_group1size := KLss_groupSize linenum\<rparr>
                  else st1\<lparr>m_group2size := KLss_groupSize linenum\<rparr>);
           transposedTallyMatrix = map (\<lambda>c. map (\<lambda>row. row ! c) tallyMatrix) [0..<numCols];
           denom = LOG2 * real (length tallyMatrix);
           entries = map (\<lambda>statePairID.
                            (statePairID + 1,
                             map (\<lambda>epigenomePairID.
                                    (epigenomePairID,
                                     Qss_cell Nsites denom
                                       (transposedTallyMatrix ! statePairID ! epigenomePairID)))
                                 [0..<length tallyMatrix]))
                         [0..<numCols];
           st3 = (if intoQss1
                  then st2\<lparr>m_Qss1contrib := fold (\<lambda>(k, v). omap_update k v) entries (m_Qss1contrib st2)\<rparr>
                  else st2\<lparr>m_Qss2contrib := fold (\<lambda>(k, v). omap_update k v) entries (m_Qss2contrib st2)\<rparr>)
       in Inr (st3\<lparr>m_size := (pairs32 (m_group1size st3) + pairs32 (m_group2size st3)) mod 2 ^ 32\<rparr>))"

text \<open>
  The reflection across the diagonal in \<^verbatim>\<open>processInputValue\<close>: the state pair group
  of an ordered state pair.
\<close>

definition statePairGroupID_of :: "nat \<Rightarrow> nat \<Rightarrow> nat" where
  "statePairGroupID_of numStates statePairID =
     (let remainder = statePairID mod numStates in
      if remainder \<noteq> 0 then
        (let quotient = statePairID div numStates in
         if quotient + 1 > remainder then numStates * (remainder - 1) + (quotient + 1)
         else statePairID)
      else statePairID)"

definition record_observation :: "bool \<Rightarrow> nat \<Rightarrow> nat \<Rightarrow> nat \<Rightarrow> (nat \<times> observations) list
    \<Rightarrow> (nat \<times> observations) list" where
  "record_observation processingGroup1 statePairGroupID statePairID epigenomePairID obs =
     (case map_of obs statePairGroupID of
        None \<Rightarrow>
          omap_update statePairGroupID
            (if processingGroup1 then ([(statePairID, [epigenomePairID])], [])
             else ([], [(statePairID, [epigenomePairID])])) obs
      | Some (group1, group2) \<Rightarrow>
          if processingGroup1
          then omap_update statePairGroupID
                 (omap_update statePairID
                    (case map_of group1 statePairID of
                       None \<Rightarrow> [epigenomePairID]
                     | Some eps \<Rightarrow> oset_insert epigenomePairID eps) group1, group2) obs
          else omap_update statePairGroupID
                 (group1,
                  omap_update statePairID
                    (case map_of group2 statePairID of
                       None \<Rightarrow> [epigenomePairID]
                     | Some eps \<Rightarrow> oset_insert epigenomePairID eps) group2) obs)"

definition KLss_processInputValue :: "KLss_state \<Rightarrow> nat \<Rightarrow> error + KLss_state" where
  "KLss_processInputValue st statePairID =
     (if m_numStates st = 0 then Inl DivideByZero
      else if \<not> m_writeNullMetric st \<and> m_numValsProcessedForGroup1 st = 0 \<and> m_curBegPos st = - 1
      then Inr (st\<lparr>m_curBegPos := to_int32 statePairID\<rparr>)
      else if \<not> m_writeNullMetric st \<and> m_numValsProcessedForGroup1 st = 0 \<and> m_curEndPos st = - 1
      then Inr (st\<lparr>m_curEndPos := to_int32 statePairID\<rparr>)
      else if m_numValsProcessedForGroup1 st = pairs32 (m_group1size st)
              \<and> m_numValsProcessedForGroup2 st = pairs32 (m_group2size st)
      then Inl (ExcessColumns (m_group1size st + m_group2size st))
      else
        let statePairGroupID = statePairGroupID_of (m_numStates st) statePairID
        in if m_numValsProcessedForGroup1 st \<noteq> pairs32 (m_group1size st)
           then Inr (st\<lparr>m_statePairGroupObservationsAtThisSite :=
                          record_observation True statePairGroupID statePairID
                            (m_numValsProcessedForGroup1 st)
                            (m_statePairGroupObservationsAtThisSite st),
                        m_numValsProcessedForGroup1 := m_numValsProcessedForGroup1 st + 1\<rparr>)
           else Inr (st\<lparr>m_statePairGroupObservationsAtThisSite :=
                          record_observation False statePairGroupID statePairID
                            (m_numValsProcessedForGroup2 st)
                            (m_statePairGroupObservationsAtThisSite st),
                        m_numValsProcessedForGroup2 := m_numValsProcessedForGroup2 st + 1\<rparr>))"

text \<open>\<^verbatim>\<open>Q.find(statePairID)->second.find(epigenomePairID)->second\<close>.\<close>

definition Qss_find :: "(nat \<times> (nat \<times> real) list) list \<Rightarrow> nat \<Rightarrow> nat \<Rightarrow> error + real" where
  "Qss_find Q statePairID epigenomePairID =
     (case map_of Q statePairID of
        None \<Rightarrow> Inl OutOfRange
      | Some inner \<Rightarrow>
          (case map_of inner epigenomePairID of None \<Rightarrow> Inl OutOfRange | Some q \<Rightarrow> Inr q))"

text \<open>
  The two inner loops over the observations of one group: \<^verbatim>\<open>term += ...\<close> for group 1,
  \<^verbatim>\<open>term -= ...\<close> for group 2.
\<close>

definition KLss_sum :: "(nat \<times> (nat \<times> real) list) list \<Rightarrow> bool \<Rightarrow> (nat \<times> nat list) list \<Rightarrow> real
    \<Rightarrow> error + real" where
  "KLss_sum Q subtract observed t0 =
     loopE (\<lambda>(statePairID, eps).
              loopE (\<lambda>epigenomePairID t.
                       bindE (Qss_find Q statePairID epigenomePairID) (\<lambda>q.
                         Inr (if subtract then t - q else t + q))) eps)
       observed t0"

definition KLss_term :: "KLss_state \<Rightarrow> nat \<times> observations \<Rightarrow> error + real" where
  "KLss_term st entry =
     (case entry of (statePairGroupID, (group1, group2)) \<Rightarrow>
        bindE (KLss_sum (m_Qss1contrib st) False group1 0) (\<lambda>t1.
        KLss_sum (m_Qss2contrib st) True group2 t1))"

text \<open>The row and column of a state pair group, as the evaluation derives them.\<close>

definition row_column :: "nat \<Rightarrow> nat \<Rightarrow> nat \<times> nat" where
  "row_column numStates statePairGroupID =
     (let column = statePairGroupID mod numStates;
          row = statePairGroupID div numStates + 1
      in if column = 0 then (row - 1, numStates) else (row, column))"

definition KLss_step :: "KLss_state \<Rightarrow> nat \<times> observations \<Rightarrow> KLss_acc \<Rightarrow> error + KLss_acc" where
  "KLss_step st entry acc =
     bindE (if \<not> m_writeNullMetric st
            then (if m_numStates st = 0 then Inl DivideByZero
                  else Inr (row_column (m_numStates st) (fst entry)))
            else Inr (0, 0)) (\<lambda>(row, column).
     bindE (KLss_term st entry) (\<lambda>t.
     bindE (if \<not> m_writeNullMetric st
            then
              let acc1 = (if \<bar>t\<bar> > \<bar>contribOfMaxStatePairGroupTerm acc\<bar>
                          then acc\<lparr>contribOfMaxStatePairGroupTerm := t,
                                   statePairGroupWithMaxTerm_1based := fst entry\<rparr>
                          else acc)
              in bindE (add_at (contribOfEachState acc1) (usub32 row 1) (t / 2)) (\<lambda>c1.
                 bindE (add_at c1 (usub32 column 1) (t / 2)) (\<lambda>c2.
                 Inr (acc1\<lparr>contribOfEachState := c2\<rparr>)))
            else Inr acc) (\<lambda>acc2.
     Inr (acc2\<lparr>retVal := retVal acc2 + (if m_group2size st = 0 then t else \<bar>t\<bar>)\<rparr>))))"

definition KLss_metric :: "KLss_state \<Rightarrow> error + KLss_acc" where
  "KLss_metric st =
     loopE (KLss_step st) (m_statePairGroupObservationsAtThisSite st)
       \<lparr>retVal = 0, contribOfEachState = replicate (m_numStates st) 0,
        contribOfMaxStatePairGroupTerm = 0, statePairGroupWithMaxTerm_1based = 0\<rparr>"

definition KLss_reset :: "KLss_state \<Rightarrow> KLss_state" where
  "KLss_reset st =
     st\<lparr>m_numValsProcessedForGroup1 := 0, m_numValsProcessedForGroup2 := 0,
        m_curBegPos := - 1, m_curEndPos := - 1,
        m_statePairGroupObservationsAtThisSite := []\<rparr>"

definition KLss_computeAndWriteMetric :: "KLss_state \<Rightarrow> error + KLss_state" where
  "KLss_computeAndWriteMetric st =
     bindE (KLss_metric st) (\<lambda>acc.
     bindE (if \<not> m_writeNullMetric st
            then (if m_numStates st = 0 then Inl DivideByZero
                  else
                    bindE (max_element_abs (contribOfEachState acc)) (\<lambda>k.
                    Inr (st\<lparr>m_ofsObs := m_ofsObs st @
                               [ObsStatePair (m_chrom st) (m_curBegPos st) (m_curEndPos st) (k + 1)
                                  \<bar>contribOfEachState acc ! k\<bar>
                                  (sign_text (contribOfEachState acc ! k))
                                  (row_column (m_numStates st) (statePairGroupWithMaxTerm_1based acc))
                                  \<bar>contribOfMaxStatePairGroupTerm acc\<bar>
                                  (sign_text (contribOfMaxStatePairGroupTerm acc)) (retVal acc)],
                            m_ofsScores := m_ofsScores st @
                               [Scores (m_chrom st) (m_curBegPos st) (m_curEndPos st)
                                  (contribOfEachState acc)]\<rparr>)))
            else Inr (st\<lparr>m_ofsNullValues := m_ofsNullValues st @ [retVal acc]\<rparr>)) (\<lambda>st1.
     Inr (KLss_reset st1)))"

section \<open>The interface \<^verbatim>\<open>Model\<close> and the driver\<close>

datatype model = KL_model KL_state | KLs_model KLs_state | KLss_model KLss_state

fun size_of :: "model \<Rightarrow> nat" where
  "size_of (KL_model st) = m_size st"
| "size_of (KLs_model st) = m_size st"
| "size_of (KLss_model st) = m_size st"

fun writingNulls :: "model \<Rightarrow> bool" where
  "writingNulls (KL_model st) = m_writeNullMetric st"
| "writingNulls (KLs_model st) = m_writeNullMetric st"
| "writingNulls (KLss_model st) = m_writeNullMetric st"

fun getQcontrib :: "model \<Rightarrow> nat list list \<Rightarrow> nat \<Rightarrow> error + model" where
  "getQcontrib (KL_model st) infile Nsites = bindE (KL_getQcontrib st infile Nsites) (\<lambda>st'. Inr (KL_model st'))"
| "getQcontrib (KLs_model st) infile Nsites = bindE (KLs_getQcontrib st infile Nsites) (\<lambda>st'. Inr (KLs_model st'))"
| "getQcontrib (KLss_model st) infile Nsites = bindE (KLss_getQcontrib st infile Nsites) (\<lambda>st'. Inr (KLss_model st'))"

fun processInputValue :: "model \<Rightarrow> nat \<Rightarrow> error + model" where
  "processInputValue (KL_model st) v = bindE (KL_processInputValue st v) (\<lambda>st'. Inr (KL_model st'))"
| "processInputValue (KLs_model st) v = bindE (KLs_processInputValue st v) (\<lambda>st'. Inr (KLs_model st'))"
| "processInputValue (KLss_model st) v = bindE (KLss_processInputValue st v) (\<lambda>st'. Inr (KLss_model st'))"

fun computeAndWriteMetric :: "model \<Rightarrow> error + model" where
  "computeAndWriteMetric (KL_model st) = bindE (KL_computeAndWriteMetric st) (\<lambda>st'. Inr (KL_model st'))"
| "computeAndWriteMetric (KLs_model st) = bindE (KLs_computeAndWriteMetric st) (\<lambda>st'. Inr (KLs_model st'))"
| "computeAndWriteMetric (KLss_model st) = bindE (KLss_computeAndWriteMetric st) (\<lambda>st'. Inr (KLss_model st'))"

text \<open>The three output streams of a model.\<close>

fun streams :: "model \<Rightarrow> obs_line list \<times> scores_line list \<times> real list" where
  "streams (KL_model st) = (m_ofsObs st, m_ofsScores st, m_ofsNullValues st)"
| "streams (KLs_model st) = (m_ofsObs st, m_ofsScores st, m_ofsNullValues st)"
| "streams (KLss_model st) = (m_ofsObs st, m_ofsScores st, m_ofsNullValues st)"

text \<open>
  \<^verbatim>\<open>parseInputWriteOutput\<close>. The result is the error that ended the run, if any, and the
  model as it then is. The first token of a line is converted before it is tested, so a
  line without tokens passes the null pointer to \<^verbatim>\<open>atoi\<close>.
\<close>

fun processTokens :: "model \<Rightarrow> nat list \<Rightarrow> error option \<times> model" where
  "processTokens m [] = (None, m)"
| "processTokens m (inputValue # rest) =
     (case processInputValue m inputValue of
        Inl e \<Rightarrow> (Some e, m)
      | Inr m1 \<Rightarrow> processTokens m1 rest)"

definition numExpected_of :: "model \<Rightarrow> nat" where
  "numExpected_of m = (if writingNulls m then size_of m else (size_of m + 2) mod 2 ^ 32)"

fun parse_lines :: "nat \<Rightarrow> model \<Rightarrow> nat list list \<Rightarrow> error option \<times> model" where
  "parse_lines numExpected m [] = (None, m)"
| "parse_lines numExpected m (tokens # rest) =
     (if tokens = [] then (Some NullPointer, m)
      else
        case processTokens m tokens of
          (Some e, m1) \<Rightarrow> (Some e, m1)
        | (None, m1) \<Rightarrow>
            if length tokens \<noteq> numExpected
            then (Some (ColumnCount numExpected (length tokens)), m1)
            else (case computeAndWriteMetric m1 of
                    Inl e \<Rightarrow> (Some e, m1)
                  | Inr m2 \<Rightarrow> parse_lines numExpected m2 rest))"

definition parseInputWriteOutput :: "model \<Rightarrow> nat list list \<Rightarrow> error option \<times> model" where
  "parseInputWriteOutput m ifs = parse_lines (numExpected_of m) m ifs"

text \<open>
  \<^verbatim>\<open>init\<close> on a freshly constructed model; \<open>nulls\<close> says whether a file for null values
  was named (then \<^verbatim>\<open>m_ofsNullValues.is_open()\<close> holds). The three variants share
  \<^verbatim>\<open>KLModel::init\<close>; their containers start empty.
\<close>

definition KL_init :: "bool \<Rightarrow> string \<Rightarrow> KL_state" where
  "KL_init nulls chrom =
     \<lparr>m_numStates = 0, m_size = 0, m_group1size = 0, m_group2size = 0,
      m_numValsProcessedForGroup1 = 0, m_numValsProcessedForGroup2 = 0,
      m_writeNullMetric = nulls, m_ofsObs = [], m_ofsNullValues = [], m_ofsScores = [],
      m_chrom = chrom, m_curBegPos = - 1, m_curEndPos = - 1,
      m_P1numerators = [], m_P2numerators = [], m_Q1contrib = [], m_Q2contrib = [],
      m_logsOfObservationTallies = []\<rparr>"

definition KLs_init :: "bool \<Rightarrow> string \<Rightarrow> KLs_state" where
  "KLs_init nulls chrom =
     \<lparr>m_numStates = 0, m_size = 0, m_group1size = 0, m_group2size = 0,
      m_numValsProcessedForGroup1 = 0, m_numValsProcessedForGroup2 = 0,
      m_writeNullMetric = nulls, m_ofsObs = [], m_ofsNullValues = [], m_ofsScores = [],
      m_chrom = chrom, m_curBegPos = - 1, m_curEndPos = - 1,
      m_Ps1numerators = [], m_Ps2numerators = [], m_Qs1contrib = [], m_Qs2contrib = [],
      m_logsOfObservationTallies_s = [], m_unorderedStatePairDecompositions = []\<rparr>"

definition KLss_init :: "bool \<Rightarrow> string \<Rightarrow> KLss_state" where
  "KLss_init nulls chrom =
     \<lparr>m_numStates = 0, m_size = 0, m_group1size = 0, m_group2size = 0,
      m_numValsProcessedForGroup1 = 0, m_numValsProcessedForGroup2 = 0,
      m_writeNullMetric = nulls, m_ofsObs = [], m_ofsNullValues = [], m_ofsScores = [],
      m_chrom = chrom, m_curBegPos = - 1, m_curEndPos = - 1,
      m_Qss1contrib = [], m_Qss2contrib = [], m_statePairGroupObservationsAtThisSite = []\<rparr>"

section \<open>Notions used to state the properties\<close>


text \<open>
  The group size as the specification words it for variant 1: the integer nearest to the
  sum of the tallies divided by \<open>Nsites\<close>.
\<close>

definition round_groupSize :: "nat list \<Rightarrow> nat \<Rightarrow> nat" where
  "round_groupSize tallies Nsites = nat (round (real (sum_list tallies) / real Nsites))"


text \<open>The number of unordered pairs, with repetition, of \<open>r\<close> states.\<close>

definition triangular :: "nat \<Rightarrow> nat" where
  "triangular r = r * (r + 1) div 2"

text \<open>The pair that the table-building loop stores for one \<open>delta\<close>.\<close>

definition decomposition_of :: "nat \<Rightarrow> nat \<Rightarrow> nat \<times> nat" where
  "decomposition_of numStates delta =
     (usub32 numStates (delta_row_of delta), usub32 numStates (delta_column_of delta))"


text \<open>
  The same model with and without a file for null values, the state of a model at the
  start of an input line, and two of its output streams.
\<close>

fun set_nulls :: "bool \<Rightarrow> model \<Rightarrow> model" where
  "set_nulls b (KL_model st) = KL_model (st\<lparr>m_writeNullMetric := b\<rparr>)"
| "set_nulls b (KLs_model st) = KLs_model (st\<lparr>m_writeNullMetric := b\<rparr>)"
| "set_nulls b (KLss_model st) = KLss_model (st\<lparr>m_writeNullMetric := b\<rparr>)"

fun at_line_start :: "model \<Rightarrow> bool" where
  "at_line_start (KL_model st) =
     (m_numValsProcessedForGroup1 st = 0 \<and> m_curBegPos st = - 1 \<and> m_curEndPos st = - 1)"
| "at_line_start (KLs_model st) =
     (m_numValsProcessedForGroup1 st = 0 \<and> m_curBegPos st = - 1 \<and> m_curEndPos st = - 1)"
| "at_line_start (KLss_model st) =
     (m_numValsProcessedForGroup1 st = 0 \<and> m_curBegPos st = - 1 \<and> m_curEndPos st = - 1)"

fun with_coordinates :: "int \<Rightarrow> int \<Rightarrow> model \<Rightarrow> model" where
  "with_coordinates cb ce (KL_model st) = KL_model (st\<lparr>m_curBegPos := cb, m_curEndPos := ce\<rparr>)"
| "with_coordinates cb ce (KLs_model st) = KLs_model (st\<lparr>m_curBegPos := cb, m_curEndPos := ce\<rparr>)"
| "with_coordinates cb ce (KLss_model st) = KLss_model (st\<lparr>m_curBegPos := cb, m_curEndPos := ce\<rparr>)"

definition ofsObs_of :: "model \<Rightarrow> obs_line list" where
  "ofsObs_of m = fst (streams m)"

definition ofsNullValues_of :: "model \<Rightarrow> real list" where
  "ofsNullValues_of m = snd (snd (streams m))"

text \<open>
  Concrete runs. Variant 1: the background \<open>[4, 0, 6]\<close> with \<open>Nsites = 5\<close> (group size 2),
  optionally a second background \<open>[3, 3, 0]\<close> (group size 1); then the tokens of one line.
\<close>

definition KL_loaded1 :: KL_state where
  "KL_loaded1 =
     \<lparr>m_numStates = 3, m_size = 3, m_group1size = 2, m_group2size = 0,
      m_numValsProcessedForGroup1 = 0, m_numValsProcessedForGroup2 = 0,
      m_writeNullMetric = False, m_ofsObs = [], m_ofsNullValues = [], m_ofsScores = [],
      m_chrom = ''chr1'', m_curBegPos = - 1, m_curEndPos = - 1,
      m_P1numerators = [0, 0, 0], m_P2numerators = [],
      m_Q1contrib = [Qcontrib_of 5 4, Qcontrib_of 5 0, Qcontrib_of 5 6], m_Q2contrib = [],
      m_logsOfObservationTallies = [0, ln 1, ln 2]\<rparr>"

definition KL_loaded2 :: KL_state where
  "KL_loaded2 =
     KL_loaded1\<lparr>m_size := 6, m_group2size := 1, m_P2numerators := [0, 0, 0],
                m_Q2contrib := [Qcontrib_of 5 3, Qcontrib_of 5 3, Qcontrib_of 5 0]\<rparr>"

text \<open>After the line \<open>100 200 1 0 1\<close>, after \<open>100 200 1 0 1 0 0 1\<close>, and after \<open>100 200 0 7 0\<close>.\<close>

definition KL_example1 :: KL_state where
  "KL_example1 =
     KL_loaded1\<lparr>m_numValsProcessedForGroup1 := 3, m_curBegPos := 100, m_curEndPos := 200,
                m_P1numerators := [1, 0, 1]\<rparr>"

definition KL_example2 :: KL_state where
  "KL_example2 =
     KL_loaded2\<lparr>m_numValsProcessedForGroup1 := 3, m_numValsProcessedForGroup2 := 3,
                m_curBegPos := 100, m_curEndPos := 200,
                m_P1numerators := [1, 0, 1], m_P2numerators := [0, 0, 1]\<rparr>"

definition KL_example_excess :: KL_state where
  "KL_example_excess =
     KL_loaded1\<lparr>m_numValsProcessedForGroup1 := 3, m_curBegPos := 100, m_curEndPos := 200,
                m_P1numerators := [0, 7, 0]\<rparr>"

text \<open>
  Variant 2: the background \<open>[3, 1, 1]\<close> with \<open>Nsites = 5\<close> (two states, group size 2),
  optionally a second background \<open>[0, 2, 3]\<close> (group size 2); then one line.
\<close>

definition KLs_loaded1 :: KLs_state where
  "KLs_loaded1 =
     \<lparr>m_numStates = 2, m_size = 3, m_group1size = 2, m_group2size = 0,
      m_numValsProcessedForGroup1 = 0, m_numValsProcessedForGroup2 = 0,
      m_writeNullMetric = False, m_ofsObs = [], m_ofsNullValues = [], m_ofsScores = [],
      m_chrom = ''chr1'', m_curBegPos = - 1, m_curEndPos = - 1,
      m_Ps1numerators = [0, 0, 0], m_Ps2numerators = [],
      m_Qs1contrib = [Qcontrib_of 5 3, Qcontrib_of 5 1, Qcontrib_of 5 1], m_Qs2contrib = [],
      m_logsOfObservationTallies_s = [0, ln 1],
      m_unorderedStatePairDecompositions = [(1, 1), (1, 2), (2, 2)]\<rparr>"

definition KLs_loaded2 :: KLs_state where
  "KLs_loaded2 =
     KLs_loaded1\<lparr>m_size := 6, m_group2size := 2, m_Ps2numerators := [0, 0, 0],
                 m_Qs2contrib := [Qcontrib_of 5 0, Qcontrib_of 5 2, Qcontrib_of 5 3]\<rparr>"

text \<open>After the line \<open>100 200 0 1 0\<close>, after \<open>100 200 1 0 0 1 0 0\<close>, and after \<open>100 200 0 0 0\<close>.\<close>

definition KLs_example1 :: KLs_state where
  "KLs_example1 =
     KLs_loaded1\<lparr>m_numValsProcessedForGroup1 := 3, m_curBegPos := 100, m_curEndPos := 200,
                 m_Ps1numerators := [0, 1, 0]\<rparr>"

definition KLs_example2 :: KLs_state where
  "KLs_example2 =
     KLs_loaded2\<lparr>m_numValsProcessedForGroup1 := 3, m_numValsProcessedForGroup2 := 3,
                 m_curBegPos := 100, m_curEndPos := 200,
                 m_Ps1numerators := [1, 0, 0], m_Ps2numerators := [1, 0, 0]\<rparr>"

definition KLs_example_zero :: KLs_state where
  "KLs_example_zero =
     KLs_loaded1\<lparr>m_numValsProcessedForGroup1 := 3, m_curBegPos := 100, m_curEndPos := 200\<rparr>"

text \<open>
  Variant 3: the one-row background \<open>[1, 2, 0, 2]\<close> with \<open>Nsites = 5\<close> (two states,
  group size 2); then the line \<open>100 200 3\<close>.
\<close>

definition KLss_loaded1 :: KLss_state where
  "KLss_loaded1 =
     \<lparr>m_numStates = 2, m_size = 1, m_group1size = 2, m_group2size = 0,
      m_numValsProcessedForGroup1 = 0, m_numValsProcessedForGroup2 = 0,
      m_writeNullMetric = False, m_ofsObs = [], m_ofsNullValues = [], m_ofsScores = [],
      m_chrom = ''chr1'', m_curBegPos = - 1, m_curEndPos = - 1,
      m_Qss1contrib = [(1, [(0, Qss_cell 5 (LOG2 * 1) 1)]), (2, [(0, Qss_cell 5 (LOG2 * 1) 2)]),
                       (3, [(0, Qss_cell 5 (LOG2 * 1) 0)]), (4, [(0, Qss_cell 5 (LOG2 * 1) 2)])],
      m_Qss2contrib = [], m_statePairGroupObservationsAtThisSite = []\<rparr>"

definition KLss_example1 :: KLss_state where
  "KLss_example1 =
     KLss_loaded1\<lparr>m_numValsProcessedForGroup1 := 1, m_curBegPos := 100, m_curEndPos := 200,
                  m_statePairGroupObservationsAtThisSite := [(2, ([(3, [0])], []))]\<rparr>"

text \<open>The two errors that report a wrong number of columns.\<close>

fun is_column_count_error :: "error \<Rightarrow> bool" where
  "is_column_count_error (ExcessColumns n) = True"
| "is_column_count_error (ColumnCount n k) = True"
| "is_column_count_error e = False"

text \<open>
  What the builder and the reset establish about the accumulators: the counters do not
  exceed the arrays they index, and variant 3 has at least one state.
\<close>

fun accumulator_ok :: "model \<Rightarrow> bool" where
  "accumulator_ok (KL_model st) =
     (m_numValsProcessedForGroup1 st \<le> m_numStates st
      \<and> length (m_P1numerators st) = m_numStates st
      \<and> (m_group2size st \<noteq> 0 \<longrightarrow>
           m_numValsProcessedForGroup2 st \<le> m_numStates st
           \<and> length (m_P2numerators st) = m_numStates st))"
| "accumulator_ok (KLs_model st) =
     (m_numValsProcessedForGroup1 st \<le> length (m_Ps1numerators st)
      \<and> m_numValsProcessedForGroup2 st \<le> length (m_Ps2numerators st))"
| "accumulator_ok (KLss_model st) = (m_numStates st \<noteq> 0)"

section \<open>Basic facts\<close>

lemma bindE_simps [simp]:
  "bindE (Inl e) f = Inl e"
  "bindE (Inr v) f = f v"
  by (simp_all add: bindE_def)

section \<open>Rounding\<close>

text \<open>
  Rounding is exact on the values of the format, monotone on the non-negative numbers,
  and changes a non-negative number by at most the fraction \<open>2\<^sup>-\<^sup>p\<close> of it.
\<close>

lemma round_to_even_of_int [simp]: "round_to_even (of_int m) = m"
  by (simp add: round_to_even_def)

lemma round_to_even_mono: "x \<le> y \<Longrightarrow> round_to_even x \<le> round_to_even y"
proof -
  assume xy: "x \<le> y"
  have fx: "\<lfloor>x\<rfloor> \<le> round_to_even x" "round_to_even x \<le> \<lfloor>x\<rfloor> + 1"
    by (simp_all add: round_to_even_def)
  have fy: "\<lfloor>y\<rfloor> \<le> round_to_even y" by (simp add: round_to_even_def)
  show ?thesis
  proof (cases "\<lfloor>x\<rfloor> < \<lfloor>y\<rfloor>")
    case True
    then show ?thesis using fx fy by linarith
  next
    case False
    then have "\<lfloor>x\<rfloor> = \<lfloor>y\<rfloor>" using xy floor_mono[OF xy] by linarith
    then show ?thesis using xy by (auto simp: round_to_even_def)
  qed
qed

lemma round_to_even_error: "\<bar>of_int (round_to_even x) - x\<bar> \<le> 1 / 2"
  unfolding round_to_even_def by (auto; linarith)

lemma exponent_unique:
  assumes "2 powi k \<le> \<bar>x\<bar>" "\<bar>x\<bar> < 2 powi (k + 1)"
  shows "\<lfloor>log 2 \<bar>x\<bar>\<rfloor> = k"
proof -
  have "(0::real) < 2 powi k" by simp
  then have p: "0 < \<bar>x\<bar>" using assms(1) by linarith
  have a: "(2::real) powr real_of_int k = 2 powi k"
    by (rule powr_real_of_int') simp_all
  have b: "(2::real) powr real_of_int (k + 1) = 2 powi (k + 1)"
    by (rule powr_real_of_int') simp_all
  have "(\<lfloor>log 2 \<bar>x\<bar>\<rfloor> = k) = (2 powr real_of_int k \<le> \<bar>x\<bar> \<and> \<bar>x\<bar> < 2 powr real_of_int (k + 1))"
    using p by (rule floor_log_eq_powr_iff) simp
  then show ?thesis unfolding a b using assms by blast
qed

lemma exponent_exists:
  assumes "x \<noteq> 0"
  shows "2 powi \<lfloor>log 2 \<bar>x\<bar>\<rfloor> \<le> \<bar>x\<bar> \<and> \<bar>x\<bar> < 2 powi (\<lfloor>log 2 \<bar>x\<bar>\<rfloor> + 1)"
proof -
  have p: "0 < \<bar>x\<bar>" using assms by simp
  define k where "k = \<lfloor>log 2 \<bar>x\<bar>\<rfloor>"
  have a: "(2::real) powr real_of_int k = 2 powi k"
    by (rule powr_real_of_int') simp_all
  have b: "(2::real) powr real_of_int (k + 1) = 2 powi (k + 1)"
    by (rule powr_real_of_int') simp_all
  have "(\<lfloor>log 2 \<bar>x\<bar>\<rfloor> = k) = (2 powr real_of_int k \<le> \<bar>x\<bar> \<and> \<bar>x\<bar> < 2 powr real_of_int (k + 1))"
    using p by (rule floor_log_eq_powr_iff) simp
  moreover have "\<lfloor>log 2 \<bar>x\<bar>\<rfloor> = k" by (simp only: k_def)
  ultimately have "2 powr real_of_int k \<le> \<bar>x\<bar> \<and> \<bar>x\<bar> < 2 powr real_of_int (k + 1)" by blast
  then have "2 powi k \<le> \<bar>x\<bar> \<and> \<bar>x\<bar> < 2 powi (k + 1)" unfolding a b .
  then show ?thesis unfolding k_def .
qed

lemma round_binary_calc:
  assumes "2 powi k \<le> \<bar>x\<bar>" "\<bar>x\<bar> < 2 powi (k + 1)"
  shows "round_binary p x
           = of_int (round_to_even (x / 2 powi (k - int p + 1))) * 2 powi (k - int p + 1)"
proof -
  have "(0::real) < 2 powi k" by simp
  with assms(1) have "0 < \<bar>x\<bar>" by linarith
  then have "x \<noteq> 0" by auto
  then show ?thesis unfolding round_binary_def exponent_unique[OF assms] by (simp add: Let_def)
qed

lemma round_binary_0 [simp]: "round_binary p 0 = 0"
  by (simp add: round_binary_def)

lemma round_binary_binade:
  assumes "0 < p" "0 < x" "2 powi k \<le> x" "x < 2 powi (k + 1)"
  shows "2 powi k \<le> round_binary p x \<and> round_binary p x \<le> 2 powi (k + 1)"
proof -
  define s where "s = k - int p + 1"
  have c: "round_binary p x = of_int (round_to_even (x / 2 powi s)) * 2 powi s"
    unfolding s_def using assms by (intro round_binary_calc) simp_all
  have ks: "k = s + (int p - 1)" by (simp add: s_def)
  have pk: "(2::real) powi k = 2 powi s * 2 ^ (p - 1)"
    unfolding ks using assms(1) by (simp add: power_int_add nat_diff_distrib' flip: power_int_of_nat)
  have pk1: "(2::real) powi (k + 1) = 2 powi s * 2 ^ p"
  proof -
    have "k + 1 = s + int p" by (simp add: s_def)
    then show ?thesis by (simp add: power_int_add)
  qed
  have s0: "(0::real) < 2 powi s" by simp
  have lo: "2 ^ (p - 1) \<le> x / 2 powi s" using assms(3) s0 unfolding pk
    by (simp add: field_simps)
  have hi: "x / 2 powi s \<le> 2 ^ p" using assms(4) s0 unfolding pk1
    by (simp add: field_simps)
  have "round_to_even (of_int (2 ^ (p - 1))) \<le> round_to_even (x / 2 powi s)"
    using lo by (intro round_to_even_mono) simp
  then have l1: "(2::int) ^ (p - 1) \<le> round_to_even (x / 2 powi s)" by (simp only: round_to_even_of_int)
  have "round_to_even (x / 2 powi s) \<le> round_to_even (of_int (2 ^ p))"
    using hi by (intro round_to_even_mono) simp
  then have l2: "round_to_even (x / 2 powi s) \<le> (2::int) ^ p" by (simp only: round_to_even_of_int)
  have r1: "(2::real) ^ (p - 1) \<le> of_int (round_to_even (x / 2 powi s))"
    using l1 by (metis of_int_le_iff of_int_numeral of_int_power)
  have r2: "of_int (round_to_even (x / 2 powi s)) \<le> (2::real) ^ p"
    using l2 by (metis of_int_le_iff of_int_numeral of_int_power)
  show ?thesis unfolding c pk pk1 using r1 r2 s0 by (simp add: mult.commute)
qed

lemma round_binary_nonneg:
  assumes "0 < p" "0 \<le> x"
  shows "0 \<le> round_binary p x"
proof (cases "x = 0")
  case True then show ?thesis by simp
next
  case False
  then have x: "0 < x" using assms by simp
  from exponent_exists[OF False] x
  have "2 powi \<lfloor>log 2 \<bar>x\<bar>\<rfloor> \<le> x" "x < 2 powi (\<lfloor>log 2 \<bar>x\<bar>\<rfloor> + 1)" by simp_all
  from round_binary_binade[OF assms(1) x this]
  have "2 powi \<lfloor>log 2 \<bar>x\<bar>\<rfloor> \<le> round_binary p x" by simp
  moreover have "(0::real) < 2 powi \<lfloor>log 2 \<bar>x\<bar>\<rfloor>" by simp
  ultimately show ?thesis by linarith
qed

lemma round_binary_mono:
  assumes "0 < p" "0 \<le> x" "x \<le> y"
  shows "round_binary p x \<le> round_binary p y"
proof (cases "x = 0")
  case True
  then show ?thesis using round_binary_nonneg[OF assms(1), of y] assms by simp
next
  case False
  then have x: "0 < x" and y: "0 < y" using assms by simp_all
  define k where "k = \<lfloor>log 2 \<bar>x\<bar>\<rfloor>"
  define l where "l = \<lfloor>log 2 \<bar>y\<bar>\<rfloor>"
  have kx: "2 powi k \<le> x" "x < 2 powi (k + 1)"
    using exponent_exists[of x] x by (simp_all add: k_def)
  have ly: "2 powi l \<le> y" "y < 2 powi (l + 1)"
    using exponent_exists[of y] y by (simp_all add: l_def)
  have "(2::real) powi k < 2 powi (l + 1)" using kx ly assms(3) by linarith
  then have "k < l + 1" by (metis not_le power_int_increasing one_le_numeral)
  then have kl: "k \<le> l" by simp
  show ?thesis
  proof (cases "k = l")
    case True
    have "round_binary p x = of_int (round_to_even (x / 2 powi (k - int p + 1))) * 2 powi (k - int p + 1)"
      using kx x by (intro round_binary_calc) simp_all
    moreover have "round_binary p y = of_int (round_to_even (y / 2 powi (k - int p + 1))) * 2 powi (k - int p + 1)"
      using ly y unfolding True by (intro round_binary_calc) simp_all
    moreover have "round_to_even (x / 2 powi (k - int p + 1)) \<le> round_to_even (y / 2 powi (k - int p + 1))"
      using assms(3) by (intro round_to_even_mono) (simp add: divide_right_mono)
    ultimately show ?thesis by simp
  next
    case False
    then have "k + 1 \<le> l" using kl by simp
    then have "(2::real) powi (k + 1) \<le> 2 powi l" by (intro power_int_increasing) simp_all
    moreover have "round_binary p x \<le> 2 powi (k + 1)"
      using round_binary_binade[OF assms(1) x kx] by simp
    moreover have "2 powi l \<le> round_binary p y"
      using round_binary_binade[OF assms(1) y ly] by simp
    ultimately show ?thesis by linarith
  qed
qed

lemma round_binary_error:
  assumes "0 < p" "0 \<le> x"
  shows "\<bar>round_binary p x - x\<bar> \<le> x / 2 ^ p"
proof (cases "x = 0")
  case True then show ?thesis by simp
next
  case False
  then have x: "0 < x" using assms by simp
  define k where "k = \<lfloor>log 2 \<bar>x\<bar>\<rfloor>"
  define s where "s = k - int p + 1"
  have kx: "2 powi k \<le> x" "x < 2 powi (k + 1)"
    using exponent_exists[of x] x by (simp_all add: k_def)
  have c: "round_binary p x = of_int (round_to_even (x / 2 powi s)) * 2 powi s"
    unfolding s_def using kx x by (intro round_binary_calc) simp_all
  have s0: "(0::real) < 2 powi s" by simp
  have "round_binary p x - x = (of_int (round_to_even (x / 2 powi s)) - x / 2 powi s) * 2 powi s"
    unfolding c by (simp add: field_simps)
  then have "\<bar>round_binary p x - x\<bar> = \<bar>of_int (round_to_even (x / 2 powi s)) - x / 2 powi s\<bar> * 2 powi s"
    by (simp add: abs_mult)
  also have "\<dots> \<le> 1 / 2 * 2 powi s"
    using round_to_even_error[of "x / 2 powi s"] s0 by (intro mult_right_mono) simp_all
  also have "\<dots> = 2 powi k / 2 ^ p"
  proof -
    have "k = s + int p - 1" by (simp add: s_def)
    then have "(2::real) powi k = 2 powi s * 2 ^ p / 2"
      by (simp add: power_int_add power_int_diff)
    then show ?thesis by simp
  qed
  also have "\<dots> \<le> x / 2 ^ p" using kx(1) by (simp add: divide_right_mono)
  finally show ?thesis .
qed

lemma round_binary_exact:
  assumes "0 < p" "m < 2 ^ p"
  shows "round_binary p (real m * 2 powi e) = real m * 2 powi e"
proof (cases "m = 0")
  case True then show ?thesis by simp
next
  case False
  define x where "x = real m * 2 powi e"
  have x: "0 < x" using False by (simp add: x_def)
  define j where "j = \<lfloor>log 2 (real m)\<rfloor>"
  have jm: "2 powi j \<le> real m" "real m < 2 powi (j + 1)"
    using exponent_exists[of "real m"] False by (simp_all add: j_def)
  have "(2::real) powi j < 2 ^ p" using jm(1) assms(2)
    by (metis le_less_trans of_nat_less_iff of_nat_numeral of_nat_power)
  then have "(2::real) powi j < 2 powi (int p)" by simp
  then have jp: "j < int p" by (metis not_le power_int_increasing one_le_numeral)
  have "(1::real) \<le> real m" using False by simp
  then have "(2::real) powi 0 < 2 powi (j + 1)" using jm(2) by simp
  then have "0 < j + 1" by (metis not_le power_int_increasing one_le_numeral)
  then have j0: "0 \<le> j" by simp
  have kx: "2 powi (j + e) \<le> \<bar>x\<bar>" "\<bar>x\<bar> < 2 powi (j + e + 1)"
  proof -
    have "(2::real) powi (j + e) = 2 powi j * 2 powi e" by (simp add: power_int_add)
    then show "2 powi (j + e) \<le> \<bar>x\<bar>" using jm(1) x by (simp add: x_def)
    have "(2::real) powi (j + e + 1) = 2 powi (j + 1) * 2 powi e"
      by (simp add: power_int_add)
    then show "\<bar>x\<bar> < 2 powi (j + e + 1)" using jm(2) x by (simp add: x_def)
  qed
  define d where "d = nat (int p - 1 - j)"
  have s: "j + e - int p + 1 = e - int d" using jp by (simp add: d_def)
  have c: "round_binary p x = of_int (round_to_even (x / 2 powi (e - int d))) * 2 powi (e - int d)"
    using round_binary_calc[OF kx, of p] unfolding s .
  have "x / 2 powi (e - int d) = real m * 2 ^ d"
    by (simp add: x_def power_int_diff)
  also have "\<dots> = of_int (int m * 2 ^ d)" by simp
  finally have i: "x / 2 powi (e - int d) = of_int (int m * 2 ^ d)" .
  have "round_binary p x = of_int (int m * 2 ^ d) * 2 powi (e - int d)"
    unfolding c i by (simp only: round_to_even_of_int)
  also have "\<dots> = x" by (simp add: x_def power_int_diff)
  finally show ?thesis unfolding x_def .
qed

lemma round_binary_nat:
  assumes "0 < p" "m < 2 ^ p"
  shows "round_binary p (real m) = real m"
  using round_binary_exact[OF assms, of 0] by simp

lemma binary32_mono: "0 \<le> x \<Longrightarrow> x \<le> y \<Longrightarrow> binary32 x \<le> binary32 y"
  unfolding binary32_def by (rule round_binary_mono) simp_all

lemma binary64_mono: "0 \<le> x \<Longrightarrow> x \<le> y \<Longrightarrow> binary64 x \<le> binary64 y"
  unfolding binary64_def by (rule round_binary_mono) simp_all

lemma binary32_nonneg: "0 \<le> x \<Longrightarrow> 0 \<le> binary32 x"
  unfolding binary32_def by (rule round_binary_nonneg) simp_all

lemma binary64_nonneg: "0 \<le> x \<Longrightarrow> 0 \<le> binary64 x"
  unfolding binary64_def by (rule round_binary_nonneg) simp_all

lemma binary32_frac: "m < 2 ^ 24 \<Longrightarrow> binary32 (real m / 2 ^ k) = real m / 2 ^ k"
  unfolding binary32_def using round_binary_exact[of 24 m "- int k"]
  by (simp add: power_int_minus field_simps)

lemma binary64_frac: "m < 2 ^ 53 \<Longrightarrow> binary64 (real m / 2 ^ k) = real m / 2 ^ k"
  unfolding binary64_def using round_binary_exact[of 53 m "- int k"]
  by (simp add: power_int_minus field_simps)

lemma binary32_nat: "m < 2 ^ 24 \<Longrightarrow> binary32 (real m) = real m"
  using binary32_frac[of m 0] by simp

lemma binary64_nat: "m < 2 ^ 53 \<Longrightarrow> binary64 (real m) = real m"
  using binary64_frac[of m 0] by simp

lemma binary32_error:
  assumes "0 \<le> x"
  shows "x - x / 2 ^ 24 \<le> binary32 x" "binary32 x \<le> x + x / 2 ^ 24"
proof -
  have "\<bar>binary32 x - x\<bar> \<le> x / 2 ^ 24"
    unfolding binary32_def using assms by (intro round_binary_error) simp_all
  then show "x - x / 2 ^ 24 \<le> binary32 x" "binary32 x \<le> x + x / 2 ^ 24" by linarith+
qed

lemma binary64_error:
  assumes "0 \<le> x"
  shows "x - x / 2 ^ 53 \<le> binary64 x" "binary64 x \<le> x + x / 2 ^ 53"
proof -
  have "\<bar>binary64 x - x\<bar> \<le> x / 2 ^ 53"
    unfolding binary64_def using assms by (intro round_binary_error) simp_all
  then show "x - x / 2 ^ 53 \<le> binary64 x" "binary64 x \<le> x + x / 2 ^ 53" by linarith+
qed

lemma binary64_ge: "m < 2 ^ 53 \<Longrightarrow> real m / 2 ^ k \<le> x \<Longrightarrow> real m / 2 ^ k \<le> binary64 x"
  using binary64_mono[of "real m / 2 ^ k" x] binary64_frac[of m k] by simp

lemma binary64_le: "m < 2 ^ 53 \<Longrightarrow> 0 \<le> x \<Longrightarrow> x \<le> real m / 2 ^ k \<Longrightarrow> binary64 x \<le> real m / 2 ^ k"
  using binary64_mono[of x "real m / 2 ^ k"] binary64_frac[of m k] by simp

lemma binary32_ge: "m < 2 ^ 24 \<Longrightarrow> real m / 2 ^ k \<le> x \<Longrightarrow> real m / 2 ^ k \<le> binary32 x"
  using binary32_mono[of "real m / 2 ^ k" x] binary32_frac[of m k] by simp

lemma binary32_le: "m < 2 ^ 24 \<Longrightarrow> 0 \<le> x \<Longrightarrow> x \<le> real m / 2 ^ k \<Longrightarrow> binary32 x \<le> real m / 2 ^ k"
  using binary32_mono[of x "real m / 2 ^ k"] binary32_frac[of m k] by simp

lemma hundredth_bounds: "1 / 128 \<le> binary64 (1 / 100)" "binary64 (1 / 100) \<le> 41 / 4096"
  using binary64_ge[of 1 7 "1 / 100"] binary64_le[of 41 "1 / 100" 12] by simp_all

lemma thousandth_bounds: "0 \<le> binary64 (1 / 1000)" "binary64 (1 / 1000) \<le> 1 / 8"
  using binary64_nonneg[of "1 / 1000"] binary64_le[of 1 "1 / 1000" 3] by simp_all

text \<open>The floor of a sum with 0.01, from bounds on the other summand.\<close>

lemma floor_plus_hundredth:
  assumes "g < 2 ^ 32" "real g - 1 / 128 \<le> q" "q \<le> real g + 2027 / 2048"
  shows "\<lfloor>binary64 (q + binary64 (1 / 100))\<rfloor> = int g"
proof -
  note c = hundredth_bounds
  have m1: "g < 2 ^ 53" using assms(1) by simp
  have "real g / 2 ^ 0 \<le> binary64 (q + binary64 (1 / 100))"
    using m1 by (rule binary64_ge) (use assms(2) c in simp)
  then have lo: "real g \<le> binary64 (q + binary64 (1 / 100))" by simp
  have m2: "4096 * g + 4095 < 2 ^ 53" using assms(1) by simp
  have "0 \<le> q + binary64 (1 / 100)" using assms(2) c by (cases "g = 0") auto
  moreover have "q + binary64 (1 / 100) \<le> real (4096 * g + 4095) / 2 ^ 12"
    using assms(3) c by simp
  ultimately have "binary64 (q + binary64 (1 / 100)) \<le> real (4096 * g + 4095) / 2 ^ 12"
    by (intro binary64_le[OF m2])
  then have hi: "binary64 (q + binary64 (1 / 100)) < real g + 1" by simp
  show ?thesis by (rule floor_unique) (use lo hi in simp_all)
qed


section \<open>Variant 3: the reflection across the diagonal\<close>







section \<open>The background distribution builder\<close>

text \<open>
  The round trip of the group size, for group sizes up to \<open>2\<^sup>1\<^sup>6\<close>: the relative error
  \<open>2\<^sup>-\<^sup>2\<^sup>4\<close> of each single-precision operation stays within the tolerance.
\<close>

lemma KL_groupSize_of_quotient:
  assumes "0 < Nsites" "g < 2 ^ 32"
    "real g - 1 / 128 \<le> binary32 (binary32 (real tot) / binary32 (real Nsites))"
    "binary32 (binary32 (real tot) / binary32 (real Nsites)) \<le> real g + 2027 / 2048"
  shows "KL_groupSize tot Nsites = Inr g"
proof -
  have "real g < 2 ^ 32" using assms(2) by (metis of_nat_less_iff of_nat_numeral of_nat_power)
  then show ?thesis
    using assms(1) floor_plus_hundredth[OF assms(2-4)]
    by (simp add: KL_groupSize_def float_to_uint_def)
qed

lemma KL_groupSize_recovers:
  assumes "0 < Nsites" "1 \<le> g" "g \<le> 65536"
  shows "KL_groupSize (g * Nsites) Nsites = Inr g"
proof -
  define G where "G = real g"
  define N where "N = real Nsites"
  define T' where "T' = binary32 (G * N)"
  define N' where "N' = binary32 N"
  have G: "1 \<le> G" "G \<le> 65536" using assms by (simp_all add: G_def)
  have N: "0 < N" using assms by (simp add: N_def)
  have GN: "0 \<le> G * N" using G N by simp
  have T1: "G * N - G * N / 2 ^ 24 \<le> T'" and T2: "T' \<le> G * N + G * N / 2 ^ 24"
    unfolding T'_def using binary32_error[OF GN] by simp_all
  have N1: "N - N / 2 ^ 24 \<le> N'" and N2: "N' \<le> N + N / 2 ^ 24"
    unfolding N'_def using binary32_error[of N] N by simp_all
  have N'pos: "0 < N'" using N1 N by (simp add: field_simps)
  have T'nn: "0 \<le> T'" unfolding T'_def using GN by (rule binary32_nonneg)
  define P where "P = G * N"
  have P: "P \<le> 65536 * N" "0 \<le> P" unfolding P_def using G N by simp_all
  have lo: "G - 1 / 128 \<le> T' / N'"
  proof -
    have "(G - 1 / 128) * N' \<le> (G - 1 / 128) * (N + N / 2 ^ 24)"
      using N2 G by (intro mult_left_mono) simp_all
    also have "\<dots> = P + P / 2 ^ 24 - N / 128 - N / 128 / 2 ^ 24"
      unfolding P_def by (simp add: field_simps)
    also have "\<dots> \<le> P - P / 2 ^ 24" using P N by simp
    also have "\<dots> \<le> T'" using T1 by (simp only: P_def)
    finally show ?thesis using N'pos by (simp add: pos_le_divide_eq)
  qed
  have hi: "T' / N' \<le> G + 1 / 2"
  proof -
    have "T' \<le> P + P / 2 ^ 24" using T2 by (simp only: P_def)
    also have "\<dots> \<le> P - P / 2 ^ 24 + N / 2 - N / 2 / 2 ^ 24" using P N by simp
    also have "\<dots> = (G + 1 / 2) * (N - N / 2 ^ 24)"
      unfolding P_def by (simp add: field_simps)
    also have "\<dots> \<le> (G + 1 / 2) * N'"
      using N1 G by (intro mult_left_mono) simp_all
    finally show ?thesis using N'pos by (simp add: pos_divide_le_eq)
  qed
  have q0: "0 \<le> T' / N'" using T'nn N'pos by simp
  have m1: "128 * g - 1 < 2 ^ 24" using assms by simp
  have e1: "real (128 * g - 1) / 2 ^ 7 = G - 1 / 128"
    using assms by (simp add: G_def of_nat_diff field_simps)
  have "real (128 * g - 1) / 2 ^ 7 \<le> binary32 (T' / N')"
    using m1 by (rule binary32_ge) (use lo in \<open>simp only: e1\<close>)
  then have qlo: "G - 1 / 128 \<le> binary32 (T' / N')" unfolding e1 .
  have m2: "2 * g + 1 < 2 ^ 24" using assms by simp
  have e2: "real (2 * g + 1) / 2 ^ 1 = G + 1 / 2" by (simp add: G_def field_simps)
  have "binary32 (T' / N') \<le> real (2 * g + 1) / 2 ^ 1"
    using m2 q0 by (rule binary32_le) (use hi in \<open>simp only: e2\<close>)
  then have qhi: "binary32 (T' / N') \<le> G + 2027 / 2048" unfolding e2 by simp
  have "real (g * Nsites) = G * N" by (simp add: G_def N_def)
  then show ?thesis
    using KL_groupSize_of_quotient[OF assms(1), of g "g * Nsites"] qlo qhi assms(3)
    unfolding T'_def N'_def G_def N_def by simp
qed

lemma sqrt_square_nat: "sqrt ((real m / 2 ^ k)\<^sup>2) = real m / 2 ^ k"
  by simp

text \<open>From the square root on, variant 2.\<close>

lemma KLs_from_root:
  assumes "1 \<le> g" "g \<le> 65536"
    "(real (128 * g - 65) / 2 ^ 6)\<^sup>2 \<le> c" "c \<le> (real (2 * g))\<^sup>2"
  shows "\<lfloor>binary64 (binary64 (binary64 (binary64 (sqrt c) + 1) / 2) + binary64 (1 / 100))\<rfloor> = int g"
proof -
  define s where "s = binary64 (sqrt c)"
  define d where "d = binary64 (s + 1)"
  define h where "h = binary64 (d / 2)"
  have c0: "0 \<le> c" using assms(3) by (meson order_trans zero_le_power2)
  have "real (128 * g - 65) / 2 ^ 6 \<le> sqrt c"
    using real_sqrt_le_mono[OF assms(3)] by (simp only: sqrt_square_nat)
  then have s1: "real (128 * g - 65) / 2 ^ 6 \<le> s"
    unfolding s_def using assms by (intro binary64_ge) simp_all
  have "sqrt c \<le> real (2 * g)"
    by (rule real_le_lsqrt) (use assms(4) in simp_all)
  then have "binary64 (sqrt c) \<le> real (2 * g) / 2 ^ 0"
    using assms c0 by (intro binary64_le) simp_all
  then have s2: "s \<le> real (2 * g)" by (simp add: s_def)
  have s0: "0 \<le> s" using s1 by (meson order_trans divide_nonneg_nonneg of_nat_0_le_iff zero_le_power zero_le_numeral)
  have e1: "real (128 * g - 65) / 2 ^ 6 + 1 = real (128 * g - 1) / 2 ^ 6"
    using assms(1) by (simp add: of_nat_diff field_simps)
  have "real (128 * g - 1) / 2 ^ 6 \<le> d"
    unfolding d_def using assms s1 by (intro binary64_ge) (simp_all only: e1[symmetric], simp_all)
  then have d1: "real (128 * g - 1) / 2 ^ 6 \<le> d" .
  have "binary64 (s + 1) \<le> real (2 * g + 1) / 2 ^ 0"
    using assms s0 s2 by (intro binary64_le) simp_all
  then have d2: "d \<le> real (2 * g + 1)" by (simp add: d_def)
  have d0: "0 \<le> d" using d1 by (meson order_trans divide_nonneg_nonneg of_nat_0_le_iff zero_le_power zero_le_numeral)
  have "real (128 * g - 1) / 2 ^ 7 \<le> h"
    unfolding h_def using assms d1 by (intro binary64_ge) simp_all
  then have h1: "real g - 1 / 128 \<le> h" using assms(1) by (simp add: of_nat_diff field_simps)
  have "binary64 (d / 2) \<le> real (2 * g + 1) / 2 ^ 1"
    using assms d0 d2 by (intro binary64_le) simp_all
  then have h2: "h \<le> real g + 2027 / 2048" by (simp add: h_def field_simps)
  have "g < 2 ^ 32" using assms by simp
  from floor_plus_hundredth[OF this h1 h2] show ?thesis unfolding h_def d_def s_def .
qed


lemma pairs_real:
  assumes "1 \<le> g"
  shows "2 * real (g * (g - 1) div 2) = real g * (real g - 1)"
proof -
  have ev: "even (g * (g - 1))" by (cases g) auto
  then have "2 * (g * (g - 1) div 2) = g * (g - 1)" by simp
  then have "2 * real (g * (g - 1) div 2) = real (g * (g - 1))" by (metis of_nat_mult of_nat_numeral)
  also have "\<dots> = real g * (real g - 1)" using assms by (simp add: of_nat_diff)
  finally show ?thesis .
qed

lemma binary32_rel:
  assumes "0 \<le> x"
  shows "x * (1 - 1 / 2 ^ 24) \<le> binary32 x" "binary32 x \<le> x * (1 + 1 / 2 ^ 24)"
  using binary32_error[OF assms] by (simp_all add: algebra_simps)

lemma binary64_rel:
  assumes "0 \<le> x"
  shows "x * (1 - 1 / 2 ^ 53) \<le> binary64 x" "binary64 x \<le> x * (1 + 1 / 2 ^ 53)"
  using binary64_error[OF assms] by (simp_all add: algebra_simps)

text \<open>The quotient of the two conversions, and eight times it in double precision.\<close>

lemma quotient_bounds:
  assumes "0 \<le> H" "0 < N"
  shows "H * (1 - 3 / 2 ^ 24)
           \<le> binary64 (binary64 (8 * binary32 (N * H)) / binary32 N) / 8"
    and "binary64 (binary64 (8 * binary32 (N * H)) / binary32 N) / 8
           \<le> H * (1 + 4 / 2 ^ 24)"
proof -
  define T' where "T' = binary32 (N * H)"
  define N' where "N' = binary32 N"
  define a where "a = binary64 (8 * T')"
  define b where "b = binary64 (a / N')"
  define P where "P = N * H"
  have P: "0 \<le> P" using assms by (simp add: P_def)
  have T1: "P * (1 - 1 / 2 ^ 24) \<le> T'" and T2: "T' \<le> P * (1 + 1 / 2 ^ 24)"
    unfolding T'_def P_def using binary32_rel[of "N * H"] assms by simp_all
  have N1: "N * (1 - 1 / 2 ^ 24) \<le> N'" and N2: "N' \<le> N * (1 + 1 / 2 ^ 24)"
    unfolding N'_def using binary32_rel[of N] assms by simp_all
  have N'pos: "0 < N'" using N1 assms(2) by (simp add: field_simps)
  have T'nn: "0 \<le> T'" unfolding T'_def using assms by (intro binary32_nonneg) simp
  have r1: "H * (1 - 2 / 2 ^ 24) \<le> T' / N'"
  proof -
    have "H * (1 - 2 / 2 ^ 24) * N' \<le> H * (1 - 2 / 2 ^ 24) * (N * (1 + 1 / 2 ^ 24))"
      using N2 assms(1) by (intro mult_left_mono) simp_all
    also have "\<dots> = P * ((1 - 2 / 2 ^ 24) * (1 + 1 / 2 ^ 24))" by (simp add: P_def)
    also have "\<dots> \<le> P * (1 - 1 / 2 ^ 24)" using P by (intro mult_left_mono) simp_all
    also have "\<dots> \<le> T'" by (rule T1)
    finally show ?thesis using N'pos by (simp add: pos_le_divide_eq)
  qed
  have r2: "T' / N' \<le> H * (1 + 3 / 2 ^ 24)"
  proof -
    have "T' \<le> P * (1 + 1 / 2 ^ 24)" by (rule T2)
    also have "\<dots> \<le> P * ((1 + 3 / 2 ^ 24) * (1 - 1 / 2 ^ 24))"
      using P by (intro mult_left_mono) simp_all
    also have "\<dots> = H * (1 + 3 / 2 ^ 24) * (N * (1 - 1 / 2 ^ 24))" by (simp add: P_def)
    also have "\<dots> \<le> H * (1 + 3 / 2 ^ 24) * N'"
      using N1 assms(1) by (intro mult_left_mono) simp_all
    finally show ?thesis using N'pos by (simp add: pos_divide_le_eq)
  qed
  have q0: "0 \<le> T' / N'" using T'nn N'pos by simp
  have a1: "8 * T' * (1 - 1 / 2 ^ 53) \<le> a" and a2: "a \<le> 8 * T' * (1 + 1 / 2 ^ 53)"
    unfolding a_def using binary64_rel[of "8 * T'"] T'nn by simp_all
  have a0: "0 \<le> a" unfolding a_def using T'nn by (intro binary64_nonneg) simp
  have an0: "0 \<le> a / N'" using a0 N'pos by simp
  have b1: "a / N' * (1 - 1 / 2 ^ 53) \<le> b" and b2: "b \<le> a / N' * (1 + 1 / 2 ^ 53)"
    unfolding b_def using binary64_rel[OF an0] by simp_all
  have q1: "8 * (T' / N') * (1 - 1 / 2 ^ 53) \<le> a / N'"
    using divide_right_mono[OF a1, of N'] N'pos by (simp add: field_simps)
  have q2: "a / N' \<le> 8 * (T' / N') * (1 + 1 / 2 ^ 53)"
    using divide_right_mono[OF a2, of N'] N'pos by (simp add: field_simps)
  have "H * (1 - 3 / 2 ^ 24) \<le> H * ((1 - 2 / 2 ^ 24) * (1 - 1 / 2 ^ 53) * (1 - 1 / 2 ^ 53))"
    using assms(1) by (intro mult_left_mono) simp_all
  also have "\<dots> = H * (1 - 2 / 2 ^ 24) * (1 - 1 / 2 ^ 53) * (1 - 1 / 2 ^ 53)" by simp
  also have "\<dots> \<le> T' / N' * (1 - 1 / 2 ^ 53) * (1 - 1 / 2 ^ 53)"
    using r1 by (intro mult_right_mono) simp_all
  also have "\<dots> = 8 * (T' / N') * (1 - 1 / 2 ^ 53) * (1 - 1 / 2 ^ 53) / 8" by simp
  also have "\<dots> \<le> a / N' * (1 - 1 / 2 ^ 53) / 8"
    using q1 by (intro divide_right_mono mult_right_mono) simp_all
  also have "\<dots> \<le> b / 8" using b1 by (intro divide_right_mono) simp_all
  finally show "H * (1 - 3 / 2 ^ 24)
           \<le> binary64 (binary64 (8 * binary32 (N * H)) / binary32 N) / 8"
    unfolding b_def a_def T'_def N'_def .
  have "b / 8 \<le> a / N' * (1 + 1 / 2 ^ 53) / 8" using b2 by (intro divide_right_mono) simp_all
  also have "\<dots> \<le> 8 * (T' / N') * (1 + 1 / 2 ^ 53) * (1 + 1 / 2 ^ 53) / 8"
    using q2 by (intro divide_right_mono mult_right_mono) simp_all
  also have "\<dots> = T' / N' * (1 + 1 / 2 ^ 53) * (1 + 1 / 2 ^ 53)" by simp
  also have "\<dots> \<le> H * (1 + 3 / 2 ^ 24) * (1 + 1 / 2 ^ 53) * (1 + 1 / 2 ^ 53)"
    using r2 by (intro mult_right_mono) simp_all
  also have "\<dots> = H * ((1 + 3 / 2 ^ 24) * (1 + 1 / 2 ^ 53) * (1 + 1 / 2 ^ 53))" by simp
  also have "\<dots> \<le> H * (1 + 4 / 2 ^ 24)"
    using assms(1) by (intro mult_left_mono) simp_all
  finally show "binary64 (binary64 (8 * binary32 (N * H)) / binary32 N) / 8
           \<le> H * (1 + 4 / 2 ^ 24)"
    unfolding b_def a_def T'_def N'_def .
qed

lemma pairs_square:
  assumes "1 \<le> g"
  shows "real g * real g = 2 * real (g * (g - 1) div 2) + real g"
  using pairs_real[OF assms] by (simp add: algebra_simps)

lemma pairs_le:
  assumes "1 \<le> g" "g \<le> 65536"
  shows "real (g * (g - 1) div 2) \<le> 32768 * (real g - 1)"
proof -
  have "real g * (real g - 1) \<le> 65536 * (real g - 1)"
    using assms by (intro mult_right_mono) simp_all
  then show ?thesis using pairs_real[OF assms(1)] by linarith
qed

lemma KLs_groupSize_recovers:
  assumes "0 < Nsites" "1 \<le> g" "g \<le> 65536"
  shows "KLs_groupSize (Nsites * (g * (g - 1) div 2)) Nsites = Inr g"
proof -
  define G where "G = real g"
  define H where "H = real (g * (g - 1) div 2)"
  define N where "N = real Nsites"
  define b where "b = binary64 (binary64 (8 * binary32 (N * H)) / binary32 N)"
  have G: "1 \<le> G" using assms by (simp add: G_def)
  have H0: "0 \<le> H" by (simp add: H_def)
  have N0: "0 < N" using assms by (simp add: N_def)
  have HG: "H \<le> 32768 * (G - 1)" unfolding H_def G_def using assms(2,3) by (rule pairs_le)
  have GG: "G * G = 2 * H + G" unfolding H_def G_def using assms(2) by (rule pairs_square)
  have b1: "H * (1 - 3 / 2 ^ 24) \<le> b / 8" and b2: "b / 8 \<le> H * (1 + 4 / 2 ^ 24)"
    unfolding b_def using quotient_bounds[OF H0 N0] by simp_all
  have e: "real (128 * g - 65) = 128 * G - 65" using assms(2) by (simp add: G_def of_nat_diff)
  have "(real (128 * g - 65) / 2 ^ 6)\<^sup>2 = (128 * G - 65) * (128 * G - 65) / 4096"
    unfolding e by (simp add: power2_eq_square)
  also have "\<dots> = (16384 * (G * G) - 16640 * G + 4225) / 4096" by (simp add: algebra_simps)
  also have "\<dots> = 8 * H - G / 16 + 4225 / 4096" unfolding GG by simp
  finally have klo: "(real (128 * g - 65) / 2 ^ 6)\<^sup>2 = 8 * H - G / 16 + 4225 / 4096" .
  have "(real (2 * g))\<^sup>2 = 4 * (G * G)" by (simp add: G_def power2_eq_square)
  then have khi: "(real (2 * g))\<^sup>2 = 8 * H + 4 * G" unfolding GG by simp
  have lo: "(real (128 * g - 65) / 2 ^ 6)\<^sup>2 \<le> 1 + b" unfolding klo using b1 HG G by simp
  have hi: "1 + b \<le> (real (2 * g))\<^sup>2" unfolding khi using b2 HG G by simp
  have m1: "(128 * g - 65)\<^sup>2 < 2 ^ 53"
  proof -
    have "(128 * g - 65)\<^sup>2 \<le> (2 ^ 23)\<^sup>2" using assms(3) by (intro power_mono) simp_all
    then show ?thesis by simp
  qed
  have m2: "(2 * g)\<^sup>2 < 2 ^ 53"
  proof -
    have "(2 * g)\<^sup>2 \<le> (2 ^ 17)\<^sup>2" using assms(3) by (intro power_mono) simp_all
    then show ?thesis by simp
  qed
  have f1: "(real (128 * g - 65) / 2 ^ 6)\<^sup>2 = real ((128 * g - 65)\<^sup>2) / 2 ^ 12"
    by (simp add: power_divide)
  have f2: "(real (2 * g))\<^sup>2 = real ((2 * g)\<^sup>2) / 2 ^ 0" by simp
  have c1: "(real (128 * g - 65) / 2 ^ 6)\<^sup>2 \<le> binary64 (1 + b)"
    unfolding f1 using m1 by (rule binary64_ge) (use lo in \<open>simp only: f1\<close>)
  have b0: "0 \<le> 1 + b" using lo by (meson order_trans zero_le_power2)
  have c2: "binary64 (1 + b) \<le> (real (2 * g))\<^sup>2"
    unfolding f2 using m2 b0 by (rule binary64_le) (use hi in \<open>simp only: f2\<close>)
  have fl: "\<lfloor>binary64 (binary64 (binary64 (binary64 (sqrt (binary64 (1 + b))) + 1) / 2) + binary64 (1 / 100))\<rfloor> = int g"
    using assms(2,3) c1 c2 by (rule KLs_from_root)
  have "real g < 2 ^ 32" using assms(3) by simp
  then have "float_to_uint (of_int (int g)) = Inr g" by (simp add: float_to_uint_def)
  moreover have "real (Nsites * (g * (g - 1) div 2)) = N * H" by (simp add: N_def H_def)
  ultimately show ?thesis using assms(1) fl
    unfolding KLs_groupSize_def Let_def b_def N_def by simp
qed

lemma KLss_groupSize_recovers:
  assumes "1 \<le> g" "g \<le> 65536"
  shows "KLss_groupSize (g * (g - 1) div 2) = g"
proof -
  define G where "G = real g"
  define H where "H = real (g * (g - 1) div 2)"
  define L' where "L' = binary32 H"
  define a where "a = binary64 (8 * L')"
  define c where "c = binary64 (1 + a)"
  define s where "s = binary64 (sqrt c)"
  define h where "h = binary64 (s / 2)"
  define k where "k = binary64 (1 + h)"
  define r where "r = binary64 (k + binary64 (1 / 1000))"
  have G: "1 \<le> G" using assms by (simp add: G_def)
  have H0: "0 \<le> H" by (simp add: H_def)
  have HG: "H \<le> 32768 * (G - 1)" unfolding H_def G_def using assms by (rule pairs_le)
  have GG: "G * G = 2 * H + G" unfolding H_def G_def using assms(1) by (rule pairs_square)
  have L1: "H * (1 - 1 / 2 ^ 24) \<le> L'" and L2: "L' \<le> H * (1 + 1 / 2 ^ 24)"
    unfolding L'_def using binary32_rel[OF H0] by simp_all
  have L0: "0 \<le> L'" unfolding L'_def using H0 by (rule binary32_nonneg)
  have a1: "8 * L' * (1 - 1 / 2 ^ 53) \<le> a" and a2: "a \<le> 8 * L' * (1 + 1 / 2 ^ 53)"
    unfolding a_def using binary64_rel[of "8 * L'"] L0 by simp_all
  have "8 * H * (1 - 2 / 2 ^ 24) \<le> 8 * H * ((1 - 1 / 2 ^ 24) * (1 - 1 / 2 ^ 53))"
    using H0 by (intro mult_left_mono) simp_all
  also have "\<dots> = 8 * (H * (1 - 1 / 2 ^ 24)) * (1 - 1 / 2 ^ 53)" by simp
  also have "\<dots> \<le> 8 * L' * (1 - 1 / 2 ^ 53)"
    using L1 by (intro mult_right_mono mult_left_mono) simp_all
  also have "\<dots> \<le> a" by (rule a1)
  finally have A1: "8 * H * (1 - 2 / 2 ^ 24) \<le> a" .
  have "a \<le> 8 * L' * (1 + 1 / 2 ^ 53)" by (rule a2)
  also have "\<dots> \<le> 8 * (H * (1 + 1 / 2 ^ 24)) * (1 + 1 / 2 ^ 53)"
    using L2 by (intro mult_right_mono mult_left_mono) simp_all
  also have "\<dots> = 8 * H * ((1 + 1 / 2 ^ 24) * (1 + 1 / 2 ^ 53))" by simp
  also have "\<dots> \<le> 8 * H * (1 + 2 / 2 ^ 24)"
    using H0 by (intro mult_left_mono) simp_all
  finally have A2: "a \<le> 8 * H * (1 + 2 / 2 ^ 24)" .
  have e1: "real (2 * g - 2) = 2 * G - 2" using assms(1) by (simp add: G_def of_nat_diff)
  have e2: "real (4 * g - 1) = 4 * G - 1" using assms(1) by (simp add: G_def of_nat_diff)
  have "(real (2 * g - 2))\<^sup>2 = 4 * (G * G) - 8 * G + 4"
    unfolding e1 by (simp add: power2_eq_square algebra_simps)
  then have klo: "(real (2 * g - 2))\<^sup>2 = 8 * H - 4 * G + 4" unfolding GG by simp
  have "(real (4 * g - 1) / 2 ^ 1)\<^sup>2 = (16 * (G * G) - 8 * G + 1) / 4"
    unfolding e2 by (simp add: power2_eq_square algebra_simps)
  then have khi: "(real (4 * g - 1) / 2 ^ 1)\<^sup>2 = 8 * H + 2 * G + 1 / 4" unfolding GG by simp
  have lo: "(real (2 * g - 2))\<^sup>2 \<le> 1 + a" unfolding klo using A1 HG G by simp
  have hi: "1 + a \<le> (real (4 * g - 1) / 2 ^ 1)\<^sup>2" unfolding khi using A2 HG G by simp
  have m1: "(2 * g - 2)\<^sup>2 < 2 ^ 53"
  proof -
    have "(2 * g - 2)\<^sup>2 \<le> (2 ^ 17)\<^sup>2" using assms(2) by (intro power_mono) simp_all
    then show ?thesis by simp
  qed
  have m2: "(4 * g - 1)\<^sup>2 < 2 ^ 53"
  proof -
    have "(4 * g - 1)\<^sup>2 \<le> (2 ^ 18)\<^sup>2" using assms(2) by (intro power_mono) simp_all
    then show ?thesis by simp
  qed
  have f1: "(real (2 * g - 2))\<^sup>2 = real ((2 * g - 2)\<^sup>2) / 2 ^ 0" by simp
  have f2: "(real (4 * g - 1) / 2 ^ 1)\<^sup>2 = real ((4 * g - 1)\<^sup>2) / 2 ^ 2"
    by (simp add: power_divide)
  have c1: "(real (2 * g - 2))\<^sup>2 \<le> c"
    unfolding c_def f1 using m1 by (rule binary64_ge) (use lo in \<open>simp only: f1\<close>)
  have a0: "0 \<le> 1 + a" using lo by (meson order_trans zero_le_power2)
  have c2: "c \<le> (real (4 * g - 1) / 2 ^ 1)\<^sup>2"
    unfolding c_def f2 using m2 a0 by (rule binary64_le) (use hi in \<open>simp only: f2\<close>)
  have c0: "0 \<le> c" using c1 by (meson order_trans zero_le_power2)
  have "real (2 * g - 2) \<le> sqrt c" by (rule real_le_rsqrt) (rule c1)
  then have "real (2 * g - 2) / 2 ^ 0 \<le> binary64 (sqrt c)"
    using assms(2) by (intro binary64_ge) simp_all
  then have s1: "real (2 * g - 2) \<le> s" by (simp add: s_def)
  have "sqrt c \<le> real (4 * g - 1) / 2 ^ 1" by (rule real_le_lsqrt) (use c2 in simp_all)
  then have s2: "s \<le> real (4 * g - 1) / 2 ^ 1"
    unfolding s_def using assms(2) c0 by (intro binary64_le) simp_all
  have s0: "0 \<le> s" using s1 by (meson order_trans of_nat_0_le_iff)
  have "real (2 * g - 2) / 2 ^ 1 \<le> binary64 (s / 2)"
    using assms(2) s1 by (intro binary64_ge) simp_all
  then have h1: "G - 1 \<le> h" unfolding h_def e1 by simp
  have "binary64 (s / 2) \<le> real (4 * g - 1) / 2 ^ 2"
    using assms(2) s0 s2 by (intro binary64_le) simp_all
  then have h2: "h \<le> G - 1 / 4" unfolding h_def e2 by simp
  have "real g / 2 ^ 0 \<le> binary64 (1 + h)"
    using assms(2) h1 by (intro binary64_ge) (simp_all add: G_def)
  then have k1: "G \<le> k" by (simp add: k_def G_def)
  have "binary64 (1 + h) \<le> real (4 * g + 3) / 2 ^ 2"
    using assms(2) h1 h2 G by (intro binary64_le) (simp_all add: G_def)
  then have k2: "k \<le> G + 3 / 4" by (simp add: k_def G_def)
  note t = thousandth_bounds
  have "real g / 2 ^ 0 \<le> binary64 (k + binary64 (1 / 1000))"
    using assms(2) k1 t by (intro binary64_ge) (simp_all add: G_def)
  then have r1: "G \<le> r" by (simp add: r_def G_def)
  have "binary64 (k + binary64 (1 / 1000)) \<le> real (8 * g + 7) / 2 ^ 3"
    using assms(2) k1 k2 t G by (intro binary64_le) (simp_all add: G_def)
  then have r2: "r < G + 1" by (simp add: r_def G_def)
  have "\<lfloor>r\<rfloor> = int g" by (rule floor_unique) (use r1 r2 in \<open>simp_all add: G_def\<close>)
  then show ?thesis
    unfolding KLss_groupSize_def Let_def r_def k_def h_def s_def c_def a_def L'_def H_def by simp
qed


lemma float_to_uint_of_int:
  "float_to_uint (of_int z) = Inr g \<Longrightarrow> g = nat z"
  by (auto simp: float_to_uint_def split: if_splits)

lemma KL_groupSize_Inr:
  "KL_groupSize tot Nsites = Inr g \<Longrightarrow>
     g = nat \<lfloor>binary64 (binary32 (binary32 (real tot) / binary32 (real Nsites)) + binary64 (1 / 100))\<rfloor>"
  by (auto simp: KL_groupSize_def split: if_splits dest: float_to_uint_of_int)

lemma KL_getQcontrib_slot:
  assumes "KL_getQcontrib st [line] Nsites = Inr st'"
  shows "KL_groupSize (sum_list line mod 2 ^ 64) Nsites
           = Inr (if m_group1size st = 0 then m_group1size st' else m_group2size st')"
  using assms
  by (cases "KL_groupSize (sum_list line mod 2 ^ 64) Nsites")
     (auto simp: KL_getQcontrib_def Let_def split: if_splits)

lemma KL_getQcontrib_init:
  assumes "line \<noteq> []" "KL_groupSize (sum_list line mod 2 ^ 64) Nsites = Inr g"
  shows "\<exists>st'. KL_getQcontrib (KL_init nulls chrom) [line] Nsites = Inr st'
          \<and> m_group1size st' = g \<and> m_group2size st' = 0 \<and> m_numStates st' = length line
          \<and> m_Q1contrib st' = map (Qcontrib_of Nsites) line
          \<and> m_P1numerators st' = replicate (length line) 0
          \<and> m_logsOfObservationTallies st' = 0 # map (\<lambda>i. ln (real i)) [1..<g + 1]"
  using assms
  by (simp add: KL_getQcontrib_def KL_init_def Let_def extend_logs_def)

lemma loopE_decomposition:
  assumes "length tbl = M + 1"
  shows "\<exists>tbl'. loopE (decomposition_step n M) ds tbl = Inr tbl' \<and> length tbl' = M + 1"
  using assms
proof (induction ds arbitrary: tbl)
  case Nil
  then show ?case by simp
next
  case (Cons d ds)
  have "M - d < length tbl" using Cons.prems by simp
  then have "decomposition_step n M d tbl = Inr (tbl[M - d := (usub32 n (delta_row_of d), usub32 n (delta_column_of d))])"
    by (simp add: decomposition_step_def)
  then show ?case using Cons.IH[of "tbl[M - d := (usub32 n (delta_row_of d), usub32 n (delta_column_of d))]"] Cons.prems
    by simp
qed

lemma usub32_small: "b \<le> a \<Longrightarrow> a < 2 ^ 32 \<Longrightarrow> usub32 a b = a - b"
proof -
  assume a: "b \<le> a" "a < 2 ^ 32"
  then have b: "b mod 2 ^ 32 = b" by simp
  have "a + 2 ^ 32 - b = (a - b) + 2 ^ 32" using a by simp
  then have "usub32 a b = ((a - b) + 2 ^ 32) mod 2 ^ 32" by (simp only: usub32_def b)
  also have "\<dots> = (a - b) mod 2 ^ 32" by (rule mod_add_self2)
  also have "\<dots> = a - b" using a by (intro mod_less) simp
  finally show ?thesis .
qed

lemma decompositions_succeed:
  assumes "1 \<le> n" "n * (n + 1) < 2 ^ 32"
  shows "\<exists>tbl. unorderedStatePairDecompositions_of n = Inr tbl \<and> length tbl = n * (n + 1) div 2"
proof -
  define M where "M = n * (n + 1) div 2 - 1"
  have "1 \<le> n * (n + 1) div 2" using assms(1) by (cases n) auto
  then have X: "n * (n + 1) div 2 = M + 1" by (simp add: M_def)
  have X2: "M + 1 < 2 ^ 32" using assms(2) X by linarith
  have "(n * (n + 1)) mod 2 ^ 32 = n * (n + 1)" using assms(2) by (rule mod_less)
  then have "(n * (n + 1)) mod 2 ^ 32 div 2 = M + 1" using X by (simp only:)
  moreover have "usub32 (M + 1) 1 = M" using X2 by (simp add: usub32_small)
  ultimately have m: "usub32 ((n * (n + 1)) mod 2 ^ 32 div 2) 1 = M" by (simp only:)
  have l: "(M + 1) mod 2 ^ 32 = M + 1" using X2 by (rule mod_less)
  have eq: "unorderedStatePairDecompositions_of n
      = loopE (decomposition_step n M) [0..<M + 1] (replicate (M + 1) (0, 0))"
    by (simp only: unorderedStatePairDecompositions_of_def Let_def m l)
  have "\<exists>tbl'. loopE (decomposition_step n M) [0..<M + 1] (replicate (M + 1) (0, 0)) = Inr tbl'
          \<and> length tbl' = M + 1"
    by (rule loopE_decomposition) simp
  then show ?thesis by (simp only: eq X)
qed

lemma KLs_numStates_bounds:
  assumes "1 \<le> x" "x \<le> 50000"
  shows "1 \<le> KLs_numStates x \<and> KLs_numStates x \<le> 316"
proof -
  define s where "s = sqrt (1 + 8 * real x)"
  have "1 \<le> real x" using assms by simp
  then have "3\<^sup>2 \<le> 1 + 8 * real x" by simp
  then have s3: "3 \<le> s" unfolding s_def
    by (rule real_le_rsqrt)
  have lo: "1 \<le> (s - 1) / 2 + 1 / 100" using s3 by argo
  have "real x \<le> 50000" using assms by simp
  then have "1 + 8 * real x < 633\<^sup>2" by simp
  then have "s < 633" unfolding s_def
    by (intro real_less_lsqrt) simp_all
  then have hi: "(s - 1) / 2 + 1 / 100 < 317" by argo
  from lo have "1 \<le> \<lfloor>(s - 1) / 2 + 1 / 100\<rfloor>" by (simp add: le_floor_iff)
  moreover from hi have "\<lfloor>(s - 1) / 2 + 1 / 100\<rfloor> < 317" by (simp add: floor_less_iff)
  ultimately show ?thesis unfolding KLs_numStates_def s_def[symmetric] by linarith
qed

lemma KLs_getQcontrib_init:
  assumes "line \<noteq> []" "length line \<le> 50000" "KLs_groupSize (sum_list line mod 2 ^ 64) Nsites = Inr g"
  shows "\<exists>st'. KLs_getQcontrib (KLs_init nulls chrom) [line] Nsites = Inr st'
          \<and> m_group1size st' = g \<and> m_group2size st' = 0
          \<and> m_numStates st' = KLs_numStates (length line)
          \<and> m_Qs1contrib st' = map (Qcontrib_of Nsites) line
          \<and> m_Ps1numerators st' = replicate (length line) 0
          \<and> m_logsOfObservationTallies_s st' = 0 # map (\<lambda>i. ln (real i)) [1..<pairs32 g + 1]
          \<and> unorderedStatePairDecompositions_of (KLs_numStates (length line))
               = Inr (m_unorderedStatePairDecompositions st')"
proof -
  from assms(1) have "1 \<le> length line" by (cases line) auto
  from KLs_numStates_bounds[OF this assms(2)]
  have b: "1 \<le> KLs_numStates (length line)" "KLs_numStates (length line) \<le> 316" by auto
  then have "KLs_numStates (length line) * (KLs_numStates (length line) + 1) \<le> 316 * 317"
    by (intro mult_mono) auto
  then have "KLs_numStates (length line) * (KLs_numStates (length line) + 1) < 2 ^ 32" by simp
  from decompositions_succeed[OF b(1) this] obtain tbl where
    tbl: "unorderedStatePairDecompositions_of (KLs_numStates (length line)) = Inr tbl" by blast
  show ?thesis using assms tbl
    by (simp add: KLs_getQcontrib_def KLs_init_def Let_def extend_logs_def)
qed

lemma KLs_getQcontrib_slot:
  assumes "KLs_getQcontrib st [line] Nsites = Inr st'"
  shows "KLs_groupSize (sum_list line mod 2 ^ 64) Nsites
           = Inr (if m_group1size st = 0 then m_group1size st' else m_group2size st')"
  using assms
  by (cases "KLs_groupSize (sum_list line mod 2 ^ 64) Nsites")
     (auto simp: KLs_getQcontrib_def Let_def bindE_def split: if_splits sum.splits)

text \<open>The group sizes of the examples.\<close>

lemma binary32_134221000: "binary32 134221000 = 134220992"
  unfolding binary32_def using round_binary_calc[of 27 134221000 24]
  by (simp add: round_to_even_def)

lemma binary32_1000: "binary32 1000 = 1000"
  using binary32_nat[of 1000] by simp

lemma binary32_quotient: "binary32 (16777624 / 125) = 8590143 / 64"
  unfolding binary32_def using round_binary_calc[of 17 "16777624 / 125" 24]
  by (simp add: round_to_even_def)

lemma KL_groupSize_large: "KL_groupSize 134221000 1000 = Inr 134220"
proof -
  have q: "binary32 (binary32 134221000 / binary32 1000) = 8590143 / 64"
    by (simp add: binary32_134221000 binary32_1000 binary32_quotient)
  show ?thesis
    by (rule KL_groupSize_of_quotient) (simp_all add: q)
qed

lemma KL_groupSize_10_5: "KL_groupSize 10 5 = Inr 2"
  using KL_groupSize_recovers[of 5 2] by simp

lemma KL_groupSize_8_5: "KL_groupSize 8 5 = Inr 1"
proof -
  have a: "binary32 8 = 8" "binary32 5 = 5"
    using binary32_nat[of 8] binary32_nat[of 5] by simp_all
  have "real 1 / 2 ^ 0 \<le> binary32 (8 / 5)" by (rule binary32_ge) simp_all
  moreover have "binary32 (8 / 5) \<le> real 7 / 2 ^ 2" by (rule binary32_le) simp_all
  ultimately show ?thesis
    by (intro KL_groupSize_of_quotient) (simp_all add: a)
qed

lemma KLs_groupSize_5_5: "KLs_groupSize 5 5 = Inr 2"
  using KLs_groupSize_recovers[of 5 2] by simp

lemma KLss_groupSize_1: "KLss_groupSize 1 = 2"
  using KLss_groupSize_recovers[of 2] by simp

lemma KL_groupSize_6_5: "KL_groupSize 6 5 = Inr 1"
proof -
  have a: "binary32 6 = 6" "binary32 5 = 5"
    using binary32_nat[of 6] binary32_nat[of 5] by simp_all
  have "real 1 / 2 ^ 0 \<le> binary32 (6 / 5)" by (rule binary32_ge) simp_all
  moreover have "binary32 (6 / 5) \<le> real 3 / 2 ^ 1" by (rule binary32_le) simp_all
  ultimately show ?thesis
    by (intro KL_groupSize_of_quotient) (simp_all add: a)
qed


text \<open>
  Two more inputs on which single precision decides the group size: in variant 1 the
  tallies \<open>400 0 99\<close> with \<open>Nsites = 100\<close>, whose quotient \<open>4.99\<close> rounds below
  \<open>4.99\<close>; in variant 2 the sum \<open>68720922546\<close> of the \<open>370732 * 370731 / 2\<close> pairs with
  \<open>Nsites = 1\<close>, which the conversion rounds to \<open>68720918528\<close>.
\<close>

lemma binary32_499_100: "binary32 (499 / 100) = 10464788 / 2 ^ 21"
  unfolding binary32_def using round_binary_calc[of 2 "499 / 100" 24]
  by (simp add: round_to_even_def)

lemma KL_groupSize_499_100: "KL_groupSize 499 100 = Inr 4"
proof -
  have a: "binary32 499 = 499" "binary32 100 = 100"
    using binary32_nat[of 499] binary32_nat[of 100] by simp_all
  have c: "binary64 (1 / 100) \<le> real 10737419 / 2 ^ 30"
    by (rule binary64_le) simp_all
  have c0: "0 \<le> binary64 (1 / 100)" by (rule binary64_nonneg) simp
  define r where "r = binary64 (10464788 / 2 ^ 21 + binary64 (1 / 100))"
  have "real 4 / 2 ^ 0 \<le> binary64 (10464788 / 2 ^ 21 + binary64 (1 / 100))"
    using c0 by (intro binary64_ge) simp_all
  then have lo: "4 \<le> r" by (simp add: r_def)
  have "binary64 (10464788 / 2 ^ 21 + binary64 (1 / 100)) \<le> real 5368708875 / 2 ^ 30"
    using c c0 by (intro binary64_le) simp_all
  then have hi: "r < 5" by (simp add: r_def)
  have "\<lfloor>r\<rfloor> = 4" by (rule floor_unique) (use lo hi in simp_all)
  then show ?thesis
    unfolding r_def by (simp add: KL_groupSize_def float_to_uint_def a binary32_499_100)
qed

lemma binary32_68720922546: "binary32 68720922546 = 68720918528"
  unfolding binary32_def using round_binary_calc[of 36 68720922546 24]
  by (simp add: round_to_even_def)

lemma KLs_groupSize_68720922546: "KLs_groupSize 68720922546 1 = Inr 370731"
proof -
  have one: "binary32 1 = 1" using binary32_nat[of 1] by simp
  have a: "binary64 549767348224 = 549767348224" using binary64_nat[of 549767348224] by simp
  have c: "binary64 549767348225 = 549767348225" using binary64_nat[of 549767348225] by simp
  define root where "root = binary64 (sqrt 549767348225)"
  define d where "d = binary64 (root + 1)"
  define h where "h = binary64 (d / 2)"
  have "(741462::real)\<^sup>2 \<le> 549767348225" by simp
  then have "741462 \<le> sqrt 549767348225" by (rule real_le_rsqrt)
  then have "real 741462 / 2 ^ 0 \<le> binary64 (sqrt 549767348225)"
    by (intro binary64_ge) simp_all
  then have r1: "741462 \<le> root" by (simp add: root_def)
  have "sqrt 549767348225 \<le> real 759258090 / 2 ^ 10"
    by (rule real_le_lsqrt) (simp_all add: power2_eq_square)
  then have r2: "root \<le> real 759258090 / 2 ^ 10"
    unfolding root_def by (intro binary64_le) simp_all
  have "real 741463 / 2 ^ 0 \<le> binary64 (root + 1)"
    using r1 by (intro binary64_ge) simp_all
  then have d1: "741463 \<le> d" by (simp add: d_def)
  have d2: "d \<le> real 759259114 / 2 ^ 10"
    unfolding d_def using r1 r2 by (intro binary64_le) simp_all
  have "real 741463 / 2 ^ 1 \<le> binary64 (d / 2)"
    using d1 by (intro binary64_ge) simp_all
  then have h1: "real 370731 - 1 / 128 \<le> h" by (simp add: h_def)
  have "binary64 (d / 2) \<le> real 759259114 / 2 ^ 11"
    using d1 d2 by (intro binary64_le) simp_all
  then have h2: "h \<le> real 370731 + 2027 / 2048" by (simp add: h_def)
  define x where "x = binary64 (h + binary64 (1 / 100))"
  have "\<lfloor>binary64 (h + binary64 (1 / 100))\<rfloor> = int 370731"
    using _ h1 h2 by (rule floor_plus_hundredth) simp
  then have fl: "\<lfloor>x\<rfloor> = 370731" by (simp add: x_def)
  have "of_int \<lfloor>x\<rfloor> \<le> x" "x < of_int \<lfloor>x\<rfloor> + 1" by simp_all
  then have b: "0 \<le> x" "x < 2 ^ 32" unfolding fl by simp_all
  have "KLs_groupSize 68720922546 1 = float_to_uint (of_int \<lfloor>x\<rfloor>)"
    unfolding x_def h_def d_def root_def
    by (simp add: KLs_groupSize_def Let_def binary32_68720922546 one a c)
  also have "\<dots> = Inr 370731" using b fl by (simp add: float_to_uint_def)
  finally show ?thesis .
qed

lemma read_rows_same:
  assumes "\<forall>r \<in> set rows. length r = numCols" "0 < numCols" "length row = numCols"
    "1 \<le> linenum" "linenum + length rows < 2 ^ 32"
  shows "read_rows linenum row numCols rows = Inr (linenum + length rows, numCols, rows)"
  using assms
proof (induction rows arbitrary: linenum row)
  case Nil
  then show ?case by simp
next
  case (Cons tokens rest)
  have t: "length tokens = numCols" "tokens \<noteq> []" using Cons.prems(1,2) by auto
  have l: "(linenum + 1) mod 2 ^ 32 = linenum + 1" using Cons.prems(5) by simp
  have n1: "linenum + 1 \<noteq> 1" using Cons.prems(4) by simp
  have r: "row \<noteq> []" using Cons.prems(2,3) by auto
  have "read_rows (linenum + 1) tokens numCols rest
          = Inr (linenum + 1 + length rest, numCols, rest)"
    using Cons.prems t by (intro Cons.IH) simp_all
  then show ?case using t l n1 r Cons.prems(3) by simp
qed

lemma read_tallyMatrix_same:
  assumes "\<forall>r \<in> set rows. length r = numCols" "0 < numCols" "numCols < 2 ^ 32"
    "length rows < 2 ^ 32"
  shows "read_tallyMatrix rows
           = Inr (length rows, if rows = [] then 0 else numCols, rows)"
proof (cases rows)
  case Nil
  then show ?thesis by (simp add: read_tallyMatrix_def)
next
  case (Cons tokens rest)
  have t: "length tokens = numCols" "tokens \<noteq> []" using Cons assms(1,2) by auto
  have "read_rows 1 tokens numCols rest = Inr (1 + length rest, numCols, rest)"
    using assms Cons t by (intro read_rows_same) simp_all
  then show ?thesis using Cons t assms(3) by (simp add: read_tallyMatrix_def)
qed

lemma read_rows_numCols:
  assumes "read_rows linenum row numCols rows = Inr (l, n, m)" "1 \<le> linenum"
    "linenum + length rows < 2 ^ 32"
  shows "n = numCols \<and> l = linenum + length rows \<and> length m = length rows"
  using assms
proof (induction rows arbitrary: linenum row m)
  case Nil
  then show ?case by simp
next
  case (Cons tokens rest)
  have l: "(linenum + 1) mod 2 ^ 32 = linenum + 1" using Cons.prems(3) by simp
  have n1: "linenum + 1 \<noteq> 1" using Cons.prems(2) by simp
  let ?row = "take (length row) tokens @ drop (length tokens) row"
  from Cons.prems(1) obtain m' where
    r: "read_rows (linenum + 1) ?row numCols rest = Inr (l, n, m')" and m: "m = ?row # m'"
    using l n1
    by (cases "read_rows (linenum + 1) ?row numCols rest")
       (auto split: if_splits)
  have "n = numCols \<and> l = linenum + 1 + length rest \<and> length m' = length rest"
    using r Cons.prems by (intro Cons.IH) simp_all
  then show ?case using m by simp
qed

lemma read_tallyMatrix_shape:
  assumes "read_tallyMatrix rows = Inr (l, n, m)" "length rows < 2 ^ 32"
    "\<forall>r \<in> set rows. length r < 2 ^ 32"
  shows "l = length rows \<and> length m = length rows
           \<and> (rows \<noteq> [] \<longrightarrow> 1 \<le> n \<and> n = length (hd rows))"
proof (cases rows)
  case Nil
  then show ?thesis using assms by (simp add: read_tallyMatrix_def)
next
  case (Cons tokens rest)
  have t: "length tokens mod 2 ^ 32 = length tokens" using assms(3) Cons by simp
  from assms(1) Cons obtain m' where
    r: "read_rows 1 tokens (length tokens) rest = Inr (l, n, m')" and m: "m = tokens # m'"
    and ne: "tokens \<noteq> []"
    using t
    by (cases "read_rows 1 tokens (length tokens) rest")
       (auto simp: read_tallyMatrix_def split: if_splits)
  have "n = length tokens \<and> l = 1 + length rest \<and> length m' = length rest"
    using r assms(2) Cons by (intro read_rows_numCols) simp_all
  then show ?thesis using m ne Cons by (cases tokens) auto
qed

lemma KLss_getQcontrib_init:
  assumes "read_tallyMatrix rows = Inr (l, n, m)" "\<not> list_ex (\<lambda>row. length row < n) m"
  shows "\<exists>st'. KLss_getQcontrib (KLss_init nulls chrom) rows Nsites = Inr st'
            \<and> m_group1size st' = KLss_groupSize l"
  using assms by (simp add: KLss_getQcontrib_def KLss_init_def Let_def)

text \<open>
  Claim C8 as stated fails: for the background line \<open>[4, 0, 4]\<close> with \<open>Nsites = 5\<close> the
  builder derives the group size 1, while the nearest integer to \<open>8 / 5\<close> is 2.
\<close>

theorem KL_groupSize_round_counterexample:
  "map_sum id m_group1size (KL_getQcontrib (KL_init False ''chr1'') [[4, 0, 4]] 5) = Inr 1
   \<and> round_groupSize [4, 0, 4] 5 = 2"
proof -
  obtain st' where "KL_getQcontrib (KL_init False ''chr1'') [[4, 0, 4]] 5 = Inr st'"
    and "m_group1size st' = 1"
    using KL_getQcontrib_init[of "[4, 0, 4]" 5 1 False "''chr1''"] KL_groupSize_8_5 by auto
  then show ?thesis by (simp add: round_groupSize_def round_def)
qed

text \<open>
  Claim C8, amended. For every variant-1 background line the builder derives the group
  size \<open>\<lfloor>q + 0.01\<rfloor>\<close> (for whichever group the call fills), where \<open>q\<close> is the quotient
  of the sum of the tallies by \<open>Nsites\<close> in single precision: the sum and \<open>Nsites\<close> each
  rounded to a \<^verbatim>\<open>float\<close>, their quotient rounded to a \<^verbatim>\<open>float\<close>; the sum with \<^verbatim>\<open>0.01\<close> is
  in double precision, and the sum of the tallies is below \<open>2\<^sup>6\<^sup>4\<close>. For the tallies
  \<open>[4, 0, 6]\<close> with \<open>Nsites = 5\<close> it yields 3 states, group size 2, the contribution
  \<open>- 999999\<close> for state 2 and \<open>ln 5 - ln 4\<close>, \<open>ln 5 - ln 6\<close> for states 1 and 3.
\<close>

theorem KL_background_line:
  "(KL_getQcontrib st [line] Nsites = Inr st' \<and> sum_list line < 2 ^ 64 \<longrightarrow>
      (if m_group1size st = 0 then m_group1size st' else m_group2size st')
        = nat \<lfloor>binary64 (binary32 (binary32 (real (sum_list line)) / binary32 (real Nsites))
                          + binary64 (1 / 100))\<rfloor>)
   \<and> (\<exists>st0. KL_getQcontrib (KL_init nulls chrom) [[4, 0, 6]] 5 = Inr st0
          \<and> m_numStates st0 = 3 \<and> m_group1size st0 = 2
          \<and> m_Q1contrib st0 = [ln 5 - ln 4, - 999999, ln 5 - ln 6])"
proof (intro conjI impI)
  assume a: "KL_getQcontrib st [line] Nsites = Inr st' \<and> sum_list line < 2 ^ 64"
  then have "sum_list line mod 2 ^ 64 = sum_list line" by simp
  with KL_getQcontrib_slot[of st line Nsites st'] a
  show "(if m_group1size st = 0 then m_group1size st' else m_group2size st')
        = nat \<lfloor>binary64 (binary32 (binary32 (real (sum_list line)) / binary32 (real Nsites))
                          + binary64 (1 / 100))\<rfloor>"
    by (auto dest: KL_groupSize_Inr)
next
  show "\<exists>st0. KL_getQcontrib (KL_init nulls chrom) [[4, 0, 6]] 5 = Inr st0
          \<and> m_numStates st0 = 3 \<and> m_group1size st0 = 2
          \<and> m_Q1contrib st0 = [ln 5 - ln 4, - 999999, ln 5 - ln 6]"
    using KL_getQcontrib_init[of "[4, 0, 6]" 5 2 nulls chrom] KL_groupSize_10_5
    by (auto simp: Qcontrib_of_def)
qed

theorem KL_background_line_witness:
  "\<exists>st'. KL_getQcontrib (KL_init False ''chr1'') [[4, 0, 4]] 5 = Inr st'
      \<and> sum_list [4, 0, 4] < (2 :: nat) ^ 64
      \<and> m_group1size st'
           = nat \<lfloor>binary64 (binary32 (binary32 (real (sum_list [4, 0, 4])) / binary32 (real 5))
                             + binary64 (1 / 100))\<rfloor>
      \<and> m_group1size st' = 1"
proof -
  obtain st' where s: "KL_getQcontrib (KL_init False ''chr1'') [[4, 0, 4]] 5 = Inr st'"
    and g: "m_group1size st' = 1"
    using KL_getQcontrib_init[of "[4, 0, 4]" 5 1 False "''chr1''"] KL_groupSize_8_5 by auto
  have b: "sum_list [4, 0, 4] < (2 :: nat) ^ 64" by simp
  have i: "m_group1size (KL_init False ''chr1'') = 0" by (simp add: KL_init_def)
  from KL_background_line[of "KL_init False ''chr1''" "[4, 0, 4]" 5 st'] s b i
  have "m_group1size st'
          = nat \<lfloor>binary64 (binary32 (binary32 (real (sum_list [4, 0, 4])) / binary32 (real 5))
                            + binary64 (1 / 100))\<rfloor>"
    by (simp del: sum_list.Cons)
  with s b g show ?thesis by blast
qed

text \<open>
  Claim C3 as stated fails: in variant 1 the synthetic background for the group size
  134221 with \<open>Nsites = 1000\<close>, one tally of \<open>134221000\<close>, gives the group size 134220.
  The conversion to \<^verbatim>\<open>float\<close> rounds the sum to \<open>134220992\<close>, the quotient by 1000 to
  \<open>134220.984375\<close>.
\<close>

theorem groupSize_roundtrip_counterexample:
  "sum_list [134221000] = 134221 * (1000 :: nat)
   \<and> map_sum id m_group1size (KL_getQcontrib (KL_init False ''chr1'') [[134221000]] 1000)
       = Inr 134220"
proof -
  obtain st' where "KL_getQcontrib (KL_init False ''chr1'') [[134221000]] 1000 = Inr st'"
    and "m_group1size st' = 134220"
    using KL_getQcontrib_init[of "[134221000]" 1000 134220 False "''chr1''"] KL_groupSize_large
    by auto
  then show ?thesis by simp
qed

text \<open>
  Claim C3, amended. A synthetic background built for a group size \<open>1 \<le> g \<le> 65536\<close>
  gives \<open>g\<close> back: in variant 1 a line of tallies summing to \<open>g * Nsites\<close>, in variant 2 a
  line summing to \<open>Nsites * g (g - 1) / 2\<close>, in variant 3 a matrix of \<open>g (g - 1) / 2\<close>
  rows of equal length. The other bounds are those of the source's types and buffers:
  the sum an \<^verbatim>\<open>unsigned long\<close>, a line of at most 100000 characters.
\<close>

theorem groupSize_roundtrip:
  assumes "0 < Nsites" "1 \<le> g" "g \<le> 65536"
  shows
   "(line1 \<noteq> [] \<and> sum_list line1 = g * Nsites \<and> sum_list line1 < 2 ^ 64 \<longrightarrow>
       (\<exists>st'. KL_getQcontrib (KL_init nulls chrom) [line1] Nsites = Inr st' \<and> m_group1size st' = g))
    \<and> (line2 \<noteq> [] \<and> length line2 \<le> 50000 \<and> sum_list line2 = Nsites * (g * (g - 1) div 2)
         \<and> sum_list line2 < 2 ^ 64 \<longrightarrow>
       (\<exists>st'. KLs_getQcontrib (KLs_init nulls chrom) [line2] Nsites = Inr st' \<and> m_group1size st' = g))
    \<and> (length rows = g * (g - 1) div 2 \<and> 0 < numCols \<and> numCols \<le> 50000
         \<and> (\<forall>row \<in> set rows. length row = numCols) \<longrightarrow>
       (\<exists>st'. KLss_getQcontrib (KLss_init nulls chrom) rows Nsites = Inr st' \<and> m_group1size st' = g))"
proof (intro conjI impI)
  assume a: "line1 \<noteq> [] \<and> sum_list line1 = g * Nsites \<and> sum_list line1 < 2 ^ 64"
  then have "sum_list line1 mod 2 ^ 64 = g * Nsites" by simp
  then have "KL_groupSize (sum_list line1 mod 2 ^ 64) Nsites = Inr g"
    using KL_groupSize_recovers[OF assms] by simp
  with a KL_getQcontrib_init[of line1 Nsites g nulls chrom]
  show "\<exists>st'. KL_getQcontrib (KL_init nulls chrom) [line1] Nsites = Inr st' \<and> m_group1size st' = g"
    by blast
next
  assume a: "line2 \<noteq> [] \<and> length line2 \<le> 50000 \<and> sum_list line2 = Nsites * (g * (g - 1) div 2)
         \<and> sum_list line2 < 2 ^ 64"
  then have "sum_list line2 mod 2 ^ 64 = Nsites * (g * (g - 1) div 2)" by simp
  then have "KLs_groupSize (sum_list line2 mod 2 ^ 64) Nsites = Inr g"
    using KLs_groupSize_recovers[OF assms] by simp
  with a KLs_getQcontrib_init[of line2 Nsites g nulls chrom]
  show "\<exists>st'. KLs_getQcontrib (KLs_init nulls chrom) [line2] Nsites = Inr st' \<and> m_group1size st' = g"
    by blast
next
  assume a: "length rows = g * (g - 1) div 2 \<and> 0 < numCols \<and> numCols \<le> 50000
         \<and> (\<forall>row \<in> set rows. length row = numCols)"
  have "g * (g - 1) \<le> 65536 * 65536" using assms(3) by (intro mult_mono) simp_all
  then have l: "length rows < 2 ^ 32" using a by simp
  have r: "read_tallyMatrix rows = Inr (length rows, if rows = [] then 0 else numCols, rows)"
    using a l by (intro read_tallyMatrix_same) simp_all
  have "\<not> list_ex (\<lambda>row. length row < (if rows = [] then 0 else numCols)) rows"
    using a by (simp add: list_ex_iff)
  from KLss_getQcontrib_init[OF r this, of nulls chrom Nsites] a
    KLss_groupSize_recovers[OF assms(2,3)]
  show "\<exists>st'. KLss_getQcontrib (KLss_init nulls chrom) rows Nsites = Inr st' \<and> m_group1size st' = g"
    by auto
qed

theorem groupSize_roundtrip_witness:
  "(\<exists>st'. KL_getQcontrib (KL_init False ''chr1'') [[4, 0, 6]] 5 = Inr st' \<and> m_group1size st' = 2)
   \<and> (\<exists>st'. KLs_getQcontrib (KLs_init False ''chr1'') [[3, 1, 1]] 5 = Inr st' \<and> m_group1size st' = 2)
   \<and> (\<exists>st'. KLss_getQcontrib (KLss_init False ''chr1'') [[1, 2, 0, 2]] 5 = Inr st' \<and> m_group1size st' = 2)"
  using groupSize_roundtrip[of 5 2 "[4, 0, 6]" False "''chr1''" "[3, 1, 1]" "[[1, 2, 0, 2]]" 4]
  by simp


section \<open>Variant 2: the decomposition table\<close>

lemma decomposition_step_eq:
  "M - d < length tbl \<Longrightarrow> decomposition_step n M d tbl = Inr (tbl[M - d := decomposition_of n d])"
  by (simp add: decomposition_step_def decomposition_of_def)

lemma loopE_decomposition_nth:
  assumes "length tbl = M + 1" "\<forall>d \<in> set ds. d \<le> M"
  shows "\<exists>tbl'. loopE (decomposition_step n M) ds tbl = Inr tbl' \<and> length tbl' = M + 1
           \<and> (\<forall>k \<le> M. tbl' ! k = (if M - k \<in> set ds then decomposition_of n (M - k) else tbl ! k))"
  using assms
proof (induction ds arbitrary: tbl)
  case Nil
  then show ?case by simp
next
  case (Cons d ds)
  let ?t = "tbl[M - d := decomposition_of n d]"
  have d: "d \<le> M" using Cons.prems by simp
  have step: "decomposition_step n M d tbl = Inr ?t"
    using Cons.prems by (intro decomposition_step_eq) simp
  have "length ?t = M + 1" "\<forall>d \<in> set ds. d \<le> M" using Cons.prems by simp_all
  from Cons.IH[OF this] obtain tbl' where
    l: "loopE (decomposition_step n M) ds ?t = Inr tbl'" and len: "length tbl' = M + 1"
    and nth: "\<forall>k \<le> M. tbl' ! k = (if M - k \<in> set ds then decomposition_of n (M - k) else ?t ! k)"
    by blast
  have "\<forall>k \<le> M. tbl' ! k = (if M - k \<in> set (d # ds) then decomposition_of n (M - k) else tbl ! k)"
  proof (intro allI impI)
    fix k assume k: "k \<le> M"
    show "tbl' ! k = (if M - k \<in> set (d # ds) then decomposition_of n (M - k) else tbl ! k)"
    proof (cases "M - k \<in> set ds")
      case True
      then show ?thesis using nth k by simp
    next
      case False
      show ?thesis
      proof (cases "M - k = d")
        case True
        then have "k = M - d" using k d by simp
        then show ?thesis using nth k False True Cons.prems(1) by simp
      next
        case False
        then have "k \<noteq> M - d" using k d by auto
        then show ?thesis using nth k \<open>M - k \<notin> set ds\<close> False by simp
      qed
    qed
  qed
  with l len step show ?case by simp
qed

lemma decompositions_table:
  assumes "1 \<le> n" "n * (n + 1) < 2 ^ 32"
  shows "unorderedStatePairDecompositions_of n
           = Inr (map (\<lambda>k. decomposition_of n (triangular n - 1 - k)) [0..<triangular n])"
proof -
  define M where "M = triangular n - 1"
  have "1 \<le> n * (n + 1) div 2" using assms(1) by (cases n) auto
  then have X: "n * (n + 1) div 2 = M + 1" by (simp add: M_def triangular_def)
  have X2: "M + 1 < 2 ^ 32" using assms(2) X by linarith
  have "(n * (n + 1)) mod 2 ^ 32 = n * (n + 1)" using assms(2) by (rule mod_less)
  then have "(n * (n + 1)) mod 2 ^ 32 div 2 = M + 1" using X by (simp only:)
  moreover have "usub32 (M + 1) 1 = M"
  proof -
    have "M + 1 + 2 ^ 32 - 1 mod 2 ^ 32 = M + 2 ^ 32" by simp
    then have "usub32 (M + 1) 1 = (M + 2 ^ 32) mod 2 ^ 32" by (simp only: usub32_def)
    also have "\<dots> = M mod 2 ^ 32" by (rule mod_add_self2)
    also have "\<dots> = M" using X2 by (intro mod_less) simp
    finally show ?thesis .
  qed
  ultimately have m: "usub32 ((n * (n + 1)) mod 2 ^ 32 div 2) 1 = M" by (simp only:)
  have l: "(M + 1) mod 2 ^ 32 = M + 1" using X2 by (rule mod_less)
  have eq: "unorderedStatePairDecompositions_of n
      = loopE (decomposition_step n M) [0..<M + 1] (replicate (M + 1) (0, 0))"
    by (simp only: unorderedStatePairDecompositions_of_def Let_def m l)
  have "\<exists>tbl'. loopE (decomposition_step n M) [0..<M + 1] (replicate (M + 1) (0, 0)) = Inr tbl'
          \<and> length tbl' = M + 1
          \<and> (\<forall>k \<le> M. tbl' ! k = (if M - k \<in> set [0..<M + 1] then decomposition_of n (M - k)
                                  else replicate (M + 1) (0, 0) ! k))"
    by (rule loopE_decomposition_nth) auto
  then obtain tbl' where t: "unorderedStatePairDecompositions_of n = Inr tbl'"
    and len: "length tbl' = M + 1"
    and nth0: "\<forall>k \<le> M. tbl' ! k = (if M - k \<in> set [0..<M + 1] then decomposition_of n (M - k)
                                  else replicate (M + 1) (0, 0) ! k)"
    unfolding eq by blast
  have nth: "\<forall>k \<le> M. tbl' ! k = decomposition_of n (M - k)"
  proof (intro allI impI)
    fix k assume "k \<le> M"
    moreover have "M - k < M + 1" by linarith
    then have "M - k \<in> set [0..<M + 1]" by (simp only: set_upt atLeastLessThan_iff) simp
    ultimately show "tbl' ! k = decomposition_of n (M - k)" using nth0 by metis
  qed
  have "tbl' = map (\<lambda>k. decomposition_of n (M - k)) [0..<M + 1]"
  proof (rule nth_equalityI)
    show "length tbl' = length (map (\<lambda>k. decomposition_of n (M - k)) [0..<M + 1])"
      using len by (simp only: length_map length_upt diff_zero)
  next
    fix i assume "i < length tbl'"
    then have i: "i < M + 1 - 0" using len by simp
    then have "i \<le> M" by simp
    then have "tbl' ! i = decomposition_of n (M - i)" using nth by blast
    moreover have "map (\<lambda>k. decomposition_of n (M - k)) [0..<M + 1] ! i = decomposition_of n (M - (0 + i))"
      using i by (rule nth_map_upt)
    ultimately show "tbl' ! i = map (\<lambda>k. decomposition_of n (M - k)) [0..<M + 1] ! i" by simp
  qed
  with t have fin: "unorderedStatePairDecompositions_of n
      = Inr (map (\<lambda>k. decomposition_of n (M - k)) [0..<M + 1])" by (simp only:)
  have tri: "triangular n = M + 1" using X by (simp only: triangular_def)
  show ?thesis unfolding M_def[symmetric] unfolding tri by (rule fin)
qed

lemma triangular_Suc: "triangular (Suc r) = triangular r + (r + 1)"
proof -
  have "Suc r * (Suc r + 1) = r * (r + 1) + (r + 1) * 2" by simp
  then have "Suc r * (Suc r + 1) div 2 = r * (r + 1) div 2 + (r + 1)"
    by simp
  then show ?thesis by (simp only: triangular_def)
qed

lemma two_triangular: "2 * triangular r = r * (r + 1)"
  by (induction r) (simp_all add: triangular_Suc, simp add: triangular_def)

lemma triangular_mono: "r \<le> r' \<Longrightarrow> triangular r \<le> triangular r'"
  by (induction r' ) (auto simp: triangular_Suc le_Suc_eq)

lemma tri_root_ex: "d < triangular n \<Longrightarrow> \<exists>r<n. triangular r \<le> d \<and> d < triangular (r + 1)"
proof (induction n)
  case 0
  then show ?case by (simp add: triangular_def)
next
  case (Suc n)
  show ?case
  proof (cases "d < triangular n")
    case True
    from Suc.IH[OF this] show ?thesis using less_Suc_eq by auto
  next
    case False
    with Suc.prems show ?thesis by (intro exI[of _ n]) simp
  qed
qed

lemma delta_row_of_eq:
  assumes "triangular r \<le> d" "d < triangular (r + 1)" "r \<le> 98"
  shows "delta_row_of d = r"
proof -
  define s where "s = sqrt (1 + 8 * real d)"
  define x where "x = real r"
  define y where "y = real d"
  have "r * (r + 1) \<le> 2 * d" using assms(1) two_triangular[of r] by linarith
  then have "real (r * (r + 1)) \<le> real (2 * d)" by (rule of_nat_mono)
  then have lo: "x * (x + 1) \<le> 2 * y" by (simp add: x_def y_def algebra_simps)
  have "2 * d + 2 \<le> (r + 1) * (r + 1 + 1)" using assms(2) two_triangular[of "r + 1"] by linarith
  then have "real (2 * d + 2) \<le> real ((r + 1) * (r + 1 + 1))" by (rule of_nat_mono)
  then have hi: "2 * y + 2 \<le> (x + 1) * (x + 2)" by (simp add: x_def y_def algebra_simps)
  have x98: "x \<le> 98" "0 \<le> x" using assms(3) by (simp_all add: x_def)
  have e1: "(2 * x + 1)\<^sup>2 = 4 * (x * x) + 4 * x + 1" by (simp add: power2_eq_square algebra_simps)
  have e2: "x * (x + 1) = x * x + x" by (simp add: algebra_simps)
  have "(2 * x + 1)\<^sup>2 \<le> 1 + 8 * y" using lo unfolding e1 e2 by linarith
  then have s_lo: "2 * x + 1 \<le> s" unfolding s_def y_def by (rule real_le_rsqrt)
  have e3: "(2 * x + 298 / 100)\<^sup>2 = 4 * (x * x) + (1192 / 100) * x + 88804 / 10000"
    by (simp add: power2_eq_square algebra_simps)
  have e4: "(x + 1) * (x + 2) = x * x + 3 * x + 2" by (simp add: algebra_simps)
  have "1 + 8 * y < (2 * x + 298 / 100)\<^sup>2" using hi x98 unfolding e3 e4 by linarith
  moreover have "0 \<le> 2 * x + 298 / 100" using x98 by simp
  ultimately have s_hi: "s < 2 * x + 298 / 100" unfolding s_def y_def by (intro real_less_lsqrt)
  have "\<lfloor>(- 1 + s) / 2 + 1 / 100\<rfloor> = int r"
  proof (rule floor_unique)
    show "of_int (int r) \<le> (- 1 + s) / 2 + 1 / 100" using s_lo by (simp add: x_def) argo
    show "(- 1 + s) / 2 + 1 / 100 < of_int (int r) + 1" using s_hi by (simp add: x_def) argo
  qed
  then show ?thesis by (simp add: delta_row_of_def s_def)
qed

lemma delta_column_of_eq:
  assumes "triangular r \<le> d" "d < triangular (r + 1)" "r \<le> 98"
  shows "delta_column_of d = d - triangular r"
proof (cases "d \<le> 2")
  case True
  then consider "d = 0" | "d = 1" | "d = 2" by linarith
  then show ?thesis
  proof cases
    case 1
    then show ?thesis by (simp add: delta_column_of_def)
  next
    case 2
    have "r = 1"
    proof (rule ccontr)
      assume "r \<noteq> 1"
      then consider "r = 0" | "2 \<le> r" by linarith
      then show False
      proof cases
        case 1 with assms 2 show False by (simp add: triangular_def)
      next
        case 2
        then have "triangular 2 \<le> triangular r" by (rule triangular_mono)
        with assms \<open>d = 1\<close> show False by (simp add: triangular_def)
      qed
    qed
    with 2 show ?thesis by (simp add: delta_column_of_def triangular_def)
  next
    case 3
    have "r = 1"
    proof (rule ccontr)
      assume "r \<noteq> 1"
      then consider "r = 0" | "2 \<le> r" by linarith
      then show False
      proof cases
        case 1 with assms 3 show False by (simp add: triangular_def)
      next
        case 2
        then have "triangular 2 \<le> triangular r" by (rule triangular_mono)
        with assms \<open>d = 2\<close> show False by (simp add: triangular_def)
      qed
    qed
    with 3 show ?thesis by (simp add: delta_column_of_def triangular_def)
  qed
next
  case False
  have row: "delta_row_of d = r" using assms by (rule delta_row_of_eq)
  have "r * (r + 1) \<le> 98 * 99" using assms(3) by (intro mult_mono) auto
  then have small: "r * (r + 1) < 2 ^ 32" by simp
  then have m: "(r * (r + 1)) mod 2 ^ 32 = r * (r + 1)" by (rule mod_less)
  have "triangular (r + 1) \<le> triangular 99" using assms(3) by (intro triangular_mono) simp
  then have "d < 4950" using assms(2) by (simp add: triangular_def)
  then have d32: "d < 2 ^ 32" by simp
  have t32: "triangular r mod 2 ^ 32 = triangular r" using assms(1) d32 by (intro mod_less) linarith
  have "d + 2 ^ 32 - triangular r = (d - triangular r) + 2 ^ 32" using assms(1) by simp
  then have "usub32 d (triangular r) = ((d - triangular r) + 2 ^ 32) mod 2 ^ 32"
    by (simp only: usub32_def t32)
  also have "\<dots> = (d - triangular r) mod 2 ^ 32" by (rule mod_add_self2)
  also have "\<dots> = d - triangular r" using d32 by (intro mod_less) linarith
  finally have "usub32 d (triangular r) = d - triangular r" .
  then show ?thesis using False by (simp only: delta_column_of_def row m triangular_def if_False)
qed

lemma decomposition_of_eq:
  assumes "c \<le> r" "r < n" "n \<le> 99"
  shows "decomposition_of n (triangular r + c) = (n - r, n - c)"
proof -
  have r98: "r \<le> 98" using assms by simp
  have lo: "triangular r \<le> triangular r + c" by simp
  have hi: "triangular r + c < triangular (r + 1)" using assms(1) by (simp add: triangular_Suc)
  have n32: "n < 2 ^ 32" using assms(3) by simp
  have "delta_row_of (triangular r + c) = r" using lo hi r98 by (rule delta_row_of_eq)
  moreover have "delta_column_of (triangular r + c) = c"
    using delta_column_of_eq[OF lo hi r98] by simp
  moreover have "usub32 n r = n - r" using assms n32 by (intro usub32_small) simp_all
  moreover have "usub32 n c = n - c" using assms n32 by (intro usub32_small) simp_all
  ultimately show ?thesis by (simp only: decomposition_of_def)
qed

lemma triangular_pair_less:
  assumes "c \<le> r" "r < n"
  shows "triangular r + c < triangular n"
proof -
  have "triangular r + c < triangular (r + 1)" using assms(1) by (simp add: triangular_Suc)
  also have "\<dots> \<le> triangular n" using assms(2) by (intro triangular_mono) simp
  finally show ?thesis .
qed

lemma triangular_pair_ex:
  assumes "d < triangular n"
  shows "\<exists>r c. c \<le> r \<and> r < n \<and> d = triangular r + c"
proof -
  from tri_root_ex[OF assms] obtain r where r: "r < n" "triangular r \<le> d" "d < triangular (r + 1)"
    by blast
  then have "d - triangular r \<le> r" by (simp add: triangular_Suc)
  with r show ?thesis by (intro exI[of _ r] exI[of _ "d - triangular r"]) simp
qed

lemma triangular_pair_inj:
  assumes "c \<le> r" "c' \<le> r'" "triangular r + c = triangular r' + c'"
  shows "r = r' \<and> c = c'"
proof -
  have "r = r'"
  proof (rule ccontr)
    assume "r \<noteq> r'"
    then consider "r < r'" | "r' < r" by linarith
    then show False
    proof cases
      case 1
      then have "triangular (r + 1) \<le> triangular r'" by (intro triangular_mono) simp
      with assms show False by (simp add: triangular_Suc)
    next
      case 2
      then have "triangular (r' + 1) \<le> triangular r" by (intro triangular_mono) simp
      with assms show False by (simp add: triangular_Suc)
    qed
  qed
  with assms show ?thesis by simp
qed

lemma decomposition_bij:
  assumes "n \<le> 99"
  shows "bij_betw (decomposition_of n) {0..<triangular n} {(i, j). 1 \<le> i \<and> i \<le> j \<and> j \<le> n}"
  unfolding bij_betw_def
proof
  show "inj_on (decomposition_of n) {0..<triangular n}"
  proof (rule inj_onI)
    fix d d' assume d: "d \<in> {0..<triangular n}" "d' \<in> {0..<triangular n}"
      and eq: "decomposition_of n d = decomposition_of n d'"
    from d triangular_pair_ex[of d n] obtain r c where rc: "c \<le> r" "r < n" "d = triangular r + c"
      by auto
    from d triangular_pair_ex[of d' n] obtain r' c' where rc': "c' \<le> r'" "r' < n" "d' = triangular r' + c'"
      by auto
    from eq have "(n - r, n - c) = (n - r', n - c')"
      unfolding rc rc' decomposition_of_eq[OF rc(1,2) assms] decomposition_of_eq[OF rc'(1,2) assms] .
    with rc rc' have "r = r'" "c = c'" by auto
    with rc rc' show "d = d'" by simp
  qed
next
  show "decomposition_of n ` {0..<triangular n} = {(i, j). 1 \<le> i \<and> i \<le> j \<and> j \<le> n}"
  proof (intro set_eqI iffI)
    fix p assume "p \<in> decomposition_of n ` {0..<triangular n}"
    then obtain d where d: "d < triangular n" "p = decomposition_of n d" by auto
    from triangular_pair_ex[OF d(1)] obtain r c where rc: "c \<le> r" "r < n" "d = triangular r + c"
      by auto
    have "p = (n - r, n - c)" unfolding d(2) rc(3) by (rule decomposition_of_eq[OF rc(1,2) assms])
    with rc show "p \<in> {(i, j). 1 \<le> i \<and> i \<le> j \<and> j \<le> n}" by auto
  next
    fix p assume "p \<in> {(i, j). 1 \<le> i \<and> i \<le> j \<and> j \<le> n}"
    then obtain i j where p: "p = (i, j)" "1 \<le> i" "i \<le> j" "j \<le> n" by auto
    then have rc: "n - j \<le> n - i" "n - i < n" by auto
    have "decomposition_of n (triangular (n - i) + (n - j)) = (n - (n - i), n - (n - j))"
      by (rule decomposition_of_eq[OF rc assms])
    also have "\<dots> = p" using p by simp
    finally have "p = decomposition_of n (triangular (n - i) + (n - j))" by simp
    moreover have "triangular (n - i) + (n - j) \<in> {0..<triangular n}"
      using triangular_pair_less[OF rc] by simp
    ultimately show "p \<in> decomposition_of n ` {0..<triangular n}" by (rule image_eqI)
  qed
qed

lemma reverse_bij: "bij_betw (\<lambda>k. T - 1 - k) {0..<T} {0..<T::nat}"
  by (rule bij_betw_byWitness[where f' = "\<lambda>k. T - 1 - k"]) auto


text \<open>
  The bound 99 is the reach of the tolerance \<open>0.01\<close> in \<^verbatim>\<open>delta_row\<close>: with 100 states
  the row of \<open>delta = 5049\<close> comes out as 100 instead of 99, the column wraps around, and
  identifier 0 decodes to \<open>(0, 101)\<close>.
\<close>

lemma delta_row_of_5049: "delta_row_of 5049 = 100"
proof -
  define s where "s = sqrt (1 + 8 * real 5049)"
  have "(20098 / 100)\<^sup>2 \<le> (1 + 8 * real 5049)" by (simp add: power2_eq_square)
  then have lo: "20098 / 100 \<le> s" unfolding s_def by (rule real_le_rsqrt)
  have "1 + 8 * real 5049 < (20298 / 100)\<^sup>2" by (simp add: power2_eq_square)
  then have hi: "s < 20298 / 100" unfolding s_def by (intro real_less_lsqrt) simp_all
  have "\<lfloor>(- 1 + s) / 2 + 1 / 100\<rfloor> = 100"
  proof (rule floor_unique)
    show "of_int 100 \<le> (- 1 + s) / 2 + 1 / 100" using lo by simp argo
    show "(- 1 + s) / 2 + 1 / 100 < of_int 100 + 1" using hi by simp argo
  qed
  then show ?thesis by (simp add: delta_row_of_def s_def)
qed

lemma decomposition_of_100_5049: "decomposition_of 100 5049 = (0, 101)"
  by (simp add: decomposition_of_def delta_column_of_def delta_row_of_5049 usub32_def)

lemma decompositions_100_first:
  "map_sum id (\<lambda>tbl. tbl ! 0) (unorderedStatePairDecompositions_of 100) = Inr (0, 101)"
proof -
  have t: "triangular 100 = 5050" by (simp add: triangular_def)
  have "unorderedStatePairDecompositions_of 100
      = Inr (map (\<lambda>k. decomposition_of 100 (triangular 100 - 1 - k)) [0..<triangular 100])"
    by (rule decompositions_table) simp_all
  moreover have "map (\<lambda>k. decomposition_of 100 (5050 - 1 - k)) [0..<5050] ! 0
      = decomposition_of 100 (5050 - 1 - (0 + 0))"
    by (rule nth_map_upt) simp
  ultimately show ?thesis unfolding t by (simp only: map_sum.simps id_apply) (simp add: decomposition_of_100_5049)
qed

lemma decompositions_three:
  "unorderedStatePairDecompositions_of 3 = Inr [(1, 1), (1, 2), (1, 3), (2, 2), (2, 3), (3, 3)]"
proof -
  have t3: "triangular 3 = 6" by (simp add: triangular_def)
  have u: "[0..<6] = [0, 1, 2, 3, 4, 5]" by (simp add: upt_rec)
  have e: "triangular 0 + 0 = 0" "triangular 1 + 0 = 1" "triangular 1 + 1 = 2"
    "triangular 2 + 0 = 3" "triangular 2 + 1 = 4" "triangular 2 + 2 = 5"
    by (simp_all add: triangular_def)
  have d0: "decomposition_of 3 0 = (3, 3)"
    using decomposition_of_eq[of 0 0 3] unfolding e by simp
  have d1: "decomposition_of 3 1 = (2, 3)"
    using decomposition_of_eq[of 0 1 3] unfolding e by simp
  have d2: "decomposition_of 3 2 = (2, 2)"
    using decomposition_of_eq[of 1 1 3] unfolding e by simp
  have d3: "decomposition_of 3 3 = (1, 3)"
    using decomposition_of_eq[of 0 2 3] unfolding e by simp
  have d4: "decomposition_of 3 4 = (1, 2)"
    using decomposition_of_eq[of 1 2 3] unfolding e by simp
  have d5: "decomposition_of 3 5 = (1, 1)"
    using decomposition_of_eq[of 2 2 3] unfolding e by simp
  have "unorderedStatePairDecompositions_of 3
      = Inr (map (\<lambda>k. decomposition_of 3 (triangular 3 - 1 - k)) [0..<triangular 3])"
    by (rule decompositions_table) simp_all
  then show ?thesis
    unfolding t3 u using d1 by (simp add: d0 d2 d3 d4 d5)
qed

text \<open>
  Claim C2, amended. For \<open>1 \<le> numStates \<le> 99\<close> the decomposition table has
  \<open>numStates (numStates + 1) / 2\<close> entries and is a bijection from the identifiers
  \<open>0 .. numStates (numStates + 1) / 2 - 1\<close> onto the pairs \<open>(i, j)\<close> with
  \<open>1 \<le> i \<le> j \<le> numStates\<close>; for \<open>numStates = 3\<close> the identifiers 0, 1, 2, 3, 4, 5
  decode to (1,1), (1,2), (1,3), (2,2), (2,3), (3,3).
\<close>

theorem decompositions_bijection:
  "(1 \<le> numStates \<and> numStates \<le> 99 \<longrightarrow>
      (\<exists>tbl. unorderedStatePairDecompositions_of numStates = Inr tbl
         \<and> length tbl = numStates * (numStates + 1) div 2
         \<and> bij_betw (\<lambda>uniqueStatePairID. tbl ! uniqueStatePairID)
              {0..<numStates * (numStates + 1) div 2}
              {(i, j). 1 \<le> i \<and> i \<le> j \<and> j \<le> numStates}))
   \<and> unorderedStatePairDecompositions_of 3 = Inr [(1, 1), (1, 2), (1, 3), (2, 2), (2, 3), (3, 3)]"
proof (intro conjI impI)
  assume a: "1 \<le> numStates \<and> numStates \<le> 99"
  define T where "T = triangular numStates"
  define tbl where "tbl = map (\<lambda>k. decomposition_of numStates (T - 1 - k)) [0..<T]"
  have "numStates * (numStates + 1) \<le> 99 * 100" using a by (intro mult_mono) auto
  then have "numStates * (numStates + 1) < 2 ^ 32" by simp
  with a have t: "unorderedStatePairDecompositions_of numStates = Inr tbl"
    unfolding tbl_def T_def by (intro decompositions_table) simp_all
  have len: "length tbl = T" by (simp add: tbl_def)
  have "bij_betw (decomposition_of numStates \<circ> (\<lambda>k. T - 1 - k)) {0..<T}
          {(i, j). 1 \<le> i \<and> i \<le> j \<and> j \<le> numStates}"
    using reverse_bij[of T] decomposition_bij[of numStates] a unfolding T_def
    by (intro bij_betw_trans) auto
  moreover have "\<forall>k \<in> {0..<T}. (decomposition_of numStates \<circ> (\<lambda>k. T - 1 - k)) k = tbl ! k"
    by (simp add: tbl_def)
  ultimately have "bij_betw (\<lambda>k. tbl ! k) {0..<T} {(i, j). 1 \<le> i \<and> i \<le> j \<and> j \<le> numStates}"
    using bij_betw_cong[of "{0..<T}" "decomposition_of numStates \<circ> (\<lambda>k. T - 1 - k)" "\<lambda>k. tbl ! k"]
    by blast
  with t len show "\<exists>tbl. unorderedStatePairDecompositions_of numStates = Inr tbl
         \<and> length tbl = numStates * (numStates + 1) div 2
         \<and> bij_betw (\<lambda>uniqueStatePairID. tbl ! uniqueStatePairID)
              {0..<numStates * (numStates + 1) div 2}
              {(i, j). 1 \<le> i \<and> i \<le> j \<and> j \<le> numStates}"
    unfolding T_def triangular_def by blast
next
  show "unorderedStatePairDecompositions_of 3 = Inr [(1, 1), (1, 2), (1, 3), (2, 2), (2, 3), (3, 3)]"
    by (rule decompositions_three)
qed

theorem decompositions_bijection_witness:
  "(1::nat) \<le> 3 \<and> (3::nat) \<le> 99
   \<and> (\<exists>tbl. unorderedStatePairDecompositions_of 3 = Inr tbl
         \<and> length tbl = 6
         \<and> bij_betw (\<lambda>uniqueStatePairID. tbl ! uniqueStatePairID) {0..<6}
              {(i, j). 1 \<le> i \<and> i \<le> j \<and> j \<le> 3})"
  using conjunct1[OF decompositions_bijection[of 3]] by simp

text \<open>
  Claim C2 as stated fails: for \<open>numStates = 3\<close> the table is not
  (3,3), (3,2), (2,2), (3,1), (2,1), (1,1).
\<close>

theorem decompositions_three_counterexample:
  "unorderedStatePairDecompositions_of 3 \<noteq> Inr [(3, 3), (3, 2), (2, 2), (3, 1), (2, 1), (1, 1)]"
  using decompositions_three by simp

section \<open>The metric evaluator\<close>

lemma loopE_retVal_sum:
  fixes step :: "'i \<Rightarrow> 'a eval_acc_scheme \<Rightarrow> error + 'a eval_acc_scheme"
  assumes step: "\<And>i acc acc'. step i acc = Inr acc' \<Longrightarrow> \<exists>t. trm i = Inr t \<and> retVal acc' = retVal acc + h t"
    and loop: "loopE step ids acc = Inr acc'"
  shows "\<exists>ts. map trm ids = map Inr ts \<and> retVal acc' = retVal acc + sum_list (map h ts)"
  using loop
proof (induction ids arbitrary: acc)
  case Nil
  then show ?case by simp
next
  case (Cons i ids)
  from Cons.prems obtain acc1 where s1: "step i acc = Inr acc1" and l: "loopE step ids acc1 = Inr acc'"
    by (cases "step i acc") auto
  from step[OF s1] obtain t where t: "trm i = Inr t" "retVal acc1 = retVal acc + h t" by blast
  from Cons.IH[OF l] obtain ts where ts: "map trm ids = map Inr ts"
    "retVal acc' = retVal acc1 + sum_list (map h ts)" by blast
  have "map trm (i # ids) = map Inr (t # ts)" using t ts by simp
  moreover have "retVal acc' = retVal acc + sum_list (map h (t # ts))" using t ts by simp
  ultimately show ?case by blast
qed

lemma KL_step_retVal:
  assumes "KL_step st i acc = Inr acc'"
  shows "\<exists>t. KL_term st i = Inr t
           \<and> retVal acc' = retVal acc + (if m_group2size st = 0 then t else \<bar>t\<bar>)"
  using assms
  by (cases "KL_term st i") (auto simp: KL_step_def split: if_splits)

lemma KLs_step_retVal:
  assumes "KLs_step st i acc = Inr acc'"
  shows "\<exists>t. KLs_term st i = Inr t
           \<and> retVal acc' = retVal acc + (if m_group2size st = 0 then t else \<bar>t\<bar>)"
proof -
  obtain t where t: "KLs_term st i = Inr t"
    using assms by (cases "KLs_term st i") (auto simp: KLs_step_def bindE_def split: if_splits sum.splits prod.splits)
  show ?thesis using assms t
    by (auto simp: KLs_step_def bindE_def Let_def split: if_splits sum.splits prod.splits)
qed

lemma KLss_step_retVal:
  assumes "KLss_step st entry acc = Inr acc'"
  shows "\<exists>t. KLss_term st entry = Inr t
           \<and> retVal acc' = retVal acc + (if m_group2size st = 0 then t else \<bar>t\<bar>)"
proof -
  obtain t where t: "KLss_term st entry = Inr t"
    using assms by (cases "KLss_term st entry") (auto simp: KLss_step_def bindE_def split: if_splits sum.splits prod.splits)
  show ?thesis using assms t
    by (auto simp: KLss_step_def bindE_def Let_def split: if_splits sum.splits prod.splits)
qed

lemma sum_choice:
  "sum_list (map (\<lambda>t. if b then t else \<bar>t\<bar>) ts) = (if b then sum_list ts else sum_list (map abs ts))"
  by (induction ts) auto

text \<open>
  Claim C1. In each variant the total \<^verbatim>\<open>retVal\<close> of an evaluation that completes is formed
  from the terms of its loop, one per identifier (variants 1 and 2) or per state pair
  group observed (variant 3): their plain signed sum when \<^verbatim>\<open>m_group2size\<close> is 0, that is
  when only group 1 exists, and the sum of their absolute values otherwise.
\<close>

theorem retVal_is_sum:
  "(KL_metric st1 = Inr a1 \<longrightarrow>
      (\<exists>ts. map (KL_term st1) [0..<length (m_P1numerators st1)] = map Inr ts
         \<and> retVal a1 = (if m_group2size st1 = 0 then sum_list ts else sum_list (map abs ts))))
   \<and> (KLs_metric st2 = Inr a2 \<longrightarrow>
      (\<exists>ts. map (KLs_term st2) [0..<length (m_Ps1numerators st2)] = map Inr ts
         \<and> retVal a2 = (if m_group2size st2 = 0 then sum_list ts else sum_list (map abs ts))))
   \<and> (KLss_metric st3 = Inr a3 \<longrightarrow>
      (\<exists>ts. map (KLss_term st3) (m_statePairGroupObservationsAtThisSite st3) = map Inr ts
         \<and> retVal a3 = (if m_group2size st3 = 0 then sum_list ts else sum_list (map abs ts))))"
proof (intro conjI impI)
  assume "KL_metric st1 = Inr a1"
  then have "loopE (KL_step st1) [0..<length (m_P1numerators st1)]
       \<lparr>retVal = 0, contribOfEachState = replicate (m_numStates st1) 0\<rparr> = Inr a1"
    by (simp only: KL_metric_def)
  from loopE_retVal_sum[of "KL_step st1" "KL_term st1"
      "\<lambda>t. if m_group2size st1 = 0 then t else \<bar>t\<bar>", OF KL_step_retVal this]
  show "\<exists>ts. map (KL_term st1) [0..<length (m_P1numerators st1)] = map Inr ts
         \<and> retVal a1 = (if m_group2size st1 = 0 then sum_list ts else sum_list (map abs ts))"
    by (simp add: sum_choice del: upt_Suc)
next
  assume "KLs_metric st2 = Inr a2"
  then have "loopE (KLs_step st2) [0..<length (m_Ps1numerators st2)]
       \<lparr>retVal = 0, contribOfEachState = replicate (m_numStates st2) 0,
        contribOfMaxStatePairTerm = 0, statePairWithMaxTerm_1based = 0\<rparr> = Inr a2"
    by (simp only: KLs_metric_def)
  from loopE_retVal_sum[of "KLs_step st2" "KLs_term st2"
      "\<lambda>t. if m_group2size st2 = 0 then t else \<bar>t\<bar>", OF KLs_step_retVal this]
  show "\<exists>ts. map (KLs_term st2) [0..<length (m_Ps1numerators st2)] = map Inr ts
         \<and> retVal a2 = (if m_group2size st2 = 0 then sum_list ts else sum_list (map abs ts))"
    by (simp add: sum_choice del: upt_Suc)
next
  assume "KLss_metric st3 = Inr a3"
  then have "loopE (KLss_step st3) (m_statePairGroupObservationsAtThisSite st3)
       \<lparr>retVal = 0, contribOfEachState = replicate (m_numStates st3) 0,
        contribOfMaxStatePairGroupTerm = 0, statePairGroupWithMaxTerm_1based = 0\<rparr> = Inr a3"
    by (simp only: KLss_metric_def)
  from loopE_retVal_sum[of "KLss_step st3" "KLss_term st3"
      "\<lambda>t. if m_group2size st3 = 0 then t else \<bar>t\<bar>", OF KLss_step_retVal this]
  show "\<exists>ts. map (KLss_term st3) (m_statePairGroupObservationsAtThisSite st3) = map Inr ts
         \<and> retVal a3 = (if m_group2size st3 = 0 then sum_list ts else sum_list (map abs ts))"
    by (simp add: sum_choice)
qed

lemma vec_at_Inr: "vec_at xs i = Inr v \<longleftrightarrow> i < length xs \<and> v = xs ! i"
  by (auto simp: vec_at_def)

lemma vec_at_Inl: "vec_at xs i = Inl e \<longleftrightarrow> \<not> i < length xs \<and> e = OutOfRange"
  by (auto simp: vec_at_def)

text \<open>
  Claim C4. In variants 1 and 2, when group 2 is present, its observed count for
  identifier \<open>i\<close> is nonzero and its background contribution there is the sentinel
  \<open>- 999999\<close>, the term of \<open>i\<close> is \<open>999999\<close>, whatever group 1 contributed.
\<close>

theorem group2_sentinel_overrides:
  "(KL_term st1 i = Inr t \<and> m_group2size st1 \<noteq> 0
      \<and> i < length (m_P2numerators st1) \<and> m_P2numerators st1 ! i \<noteq> 0
      \<and> i < length (m_Q2contrib st1) \<and> m_Q2contrib st1 ! i = - 999999 \<longrightarrow> t = 999999)
   \<and> (KLs_term st2 j = Inr u \<and> m_group2size st2 \<noteq> 0
      \<and> j < length (m_Ps2numerators st2) \<and> m_Ps2numerators st2 ! j \<noteq> 0
      \<and> j < length (m_Qs2contrib st2) \<and> m_Qs2contrib st2 ! j = - 999999 \<longrightarrow> u = 999999)"
proof (intro conjI impI)
  assume "KL_term st1 i = Inr t \<and> m_group2size st1 \<noteq> 0
      \<and> i < length (m_P2numerators st1) \<and> m_P2numerators st1 ! i \<noteq> 0
      \<and> i < length (m_Q2contrib st1) \<and> m_Q2contrib st1 ! i = - 999999"
  then show "t = 999999"
    by (auto simp: KL_term_def bindE_def vec_at_def split: sum.splits if_splits)
next
  assume "KLs_term st2 j = Inr u \<and> m_group2size st2 \<noteq> 0
      \<and> j < length (m_Ps2numerators st2) \<and> m_Ps2numerators st2 ! j \<noteq> 0
      \<and> j < length (m_Qs2contrib st2) \<and> m_Qs2contrib st2 ! j = - 999999"
  then show "u = 999999"
    by (auto simp: KLs_term_def bindE_def vec_at_def split: sum.splits if_splits)
qed

text \<open>When exactly the term of an identifier is computed without a read out of range.\<close>

lemma KL_term_defined:
  assumes "i < length (m_P1numerators st)" "i < length (m_Q1contrib st)"
    "m_group2size st \<noteq> 0 \<longrightarrow> i < length (m_P2numerators st) \<and> i < length (m_Q2contrib st)"
  shows "(\<exists>t. KL_term st i = Inr t) \<longleftrightarrow>
      (m_P1numerators st ! i \<noteq> 0 \<and> \<not> m_Q1contrib st ! i < - 999
         \<longrightarrow> m_P1numerators st ! i < length (m_logsOfObservationTallies st))
      \<and> (m_group2size st \<noteq> 0 \<and> m_P2numerators st ! i \<noteq> 0 \<and> \<not> m_Q2contrib st ! i < - 999
         \<longrightarrow> m_P2numerators st ! i < length (m_logsOfObservationTallies st))"
  using assms by (auto simp: KL_term_def vec_at_def)

lemma KLs_term_defined:
  assumes "i < length (m_Ps1numerators st)" "i < length (m_Qs1contrib st)"
    "m_group2size st \<noteq> 0 \<longrightarrow> i < length (m_Ps2numerators st) \<and> i < length (m_Qs2contrib st)"
  shows "(\<exists>t. KLs_term st i = Inr t) \<longleftrightarrow>
      (m_Ps1numerators st ! i \<noteq> 0 \<and> \<not> m_Qs1contrib st ! i < - 999
         \<longrightarrow> m_Ps1numerators st ! i < length (m_logsOfObservationTallies_s st))
      \<and> (m_group2size st \<noteq> 0 \<and> m_Ps2numerators st ! i \<noteq> 0 \<and> \<not> m_Qs2contrib st ! i < - 999
         \<longrightarrow> m_Ps2numerators st ! i < length (m_logsOfObservationTallies_s st))"
  using assms by (auto simp: KLs_term_def vec_at_def)

lemma KLs_step_dominant:
  assumes nn: "\<not> m_writeNullMetric st" and s: "KLs_step st i acc = Inr acc'"
  shows "\<exists>t. KLs_term st i = Inr t \<and> i < length (m_unorderedStatePairDecompositions st)
      \<and> (if \<bar>t\<bar> > \<bar>contribOfMaxStatePairTerm acc\<bar>
          then contribOfMaxStatePairTerm acc' = t \<and> statePairWithMaxTerm_1based acc' = i + 1
          else contribOfMaxStatePairTerm acc' = contribOfMaxStatePairTerm acc
             \<and> statePairWithMaxTerm_1based acc' = statePairWithMaxTerm_1based acc)"
proof -
  from s nn obtain p where p: "vec_at (m_unorderedStatePairDecompositions st) i = Inr p"
    by (cases "vec_at (m_unorderedStatePairDecompositions st) i") (auto simp: KLs_step_def)
  then have i: "i < length (m_unorderedStatePairDecompositions st)" by (simp add: vec_at_Inr)
  from s nn p obtain t where t: "KLs_term st i = Inr t"
    by (cases "KLs_term st i") (auto simp: KLs_step_def split: prod.splits)
  show ?thesis using s nn p t i
    by (auto simp: KLs_step_def bindE_def Let_def split: prod.splits sum.splits if_splits)
qed

lemma KLs_loop_dominant:
  assumes nn: "\<not> m_writeNullMetric st"
    and l: "loopE (KLs_step st) ids acc = Inr acc'"
    and inv: "contribOfMaxStatePairTerm acc = 0 \<longrightarrow> statePairWithMaxTerm_1based acc = 0"
      "contribOfMaxStatePairTerm acc \<noteq> 0 \<longrightarrow>
         1 \<le> statePairWithMaxTerm_1based acc
         \<and> statePairWithMaxTerm_1based acc \<le> length (m_unorderedStatePairDecompositions st)"
  shows "(contribOfMaxStatePairTerm acc' = 0 \<longrightarrow> statePairWithMaxTerm_1based acc' = 0)
     \<and> (contribOfMaxStatePairTerm acc' \<noteq> 0 \<longrightarrow>
         1 \<le> statePairWithMaxTerm_1based acc'
         \<and> statePairWithMaxTerm_1based acc' \<le> length (m_unorderedStatePairDecompositions st))
     \<and> (contribOfMaxStatePairTerm acc' \<noteq> 0 \<longleftrightarrow>
         contribOfMaxStatePairTerm acc \<noteq> 0 \<or> (\<exists>i \<in> set ids. \<exists>t. KLs_term st i = Inr t \<and> t \<noteq> 0))
     \<and> (\<forall>i \<in> set ids. \<exists>t. KLs_term st i = Inr t)"
  using l inv
proof (induction ids arbitrary: acc)
  case Nil
  then show ?case by simp
next
  case (Cons i ids)
  from Cons.prems(1) obtain acc1 where s1: "KLs_step st i acc = Inr acc1"
    and l1: "loopE (KLs_step st) ids acc1 = Inr acc'"
    by (cases "KLs_step st i acc") auto
  from KLs_step_dominant[OF nn s1] obtain t where t: "KLs_term st i = Inr t"
    and i: "i < length (m_unorderedStatePairDecompositions st)"
    and upd: "if \<bar>t\<bar> > \<bar>contribOfMaxStatePairTerm acc\<bar>
          then contribOfMaxStatePairTerm acc1 = t \<and> statePairWithMaxTerm_1based acc1 = i + 1
          else contribOfMaxStatePairTerm acc1 = contribOfMaxStatePairTerm acc
             \<and> statePairWithMaxTerm_1based acc1 = statePairWithMaxTerm_1based acc"
    by blast
  have inv1: "contribOfMaxStatePairTerm acc1 = 0 \<longrightarrow> statePairWithMaxTerm_1based acc1 = 0"
    using upd Cons.prems(2) by (auto split: if_splits)
  have inv2: "contribOfMaxStatePairTerm acc1 \<noteq> 0 \<longrightarrow>
         1 \<le> statePairWithMaxTerm_1based acc1
         \<and> statePairWithMaxTerm_1based acc1 \<le> length (m_unorderedStatePairDecompositions st)"
    using upd Cons.prems(3) i by (auto split: if_splits)
  have nz: "contribOfMaxStatePairTerm acc1 \<noteq> 0 \<longleftrightarrow> contribOfMaxStatePairTerm acc \<noteq> 0 \<or> t \<noteq> 0"
    using upd by (auto split: if_splits)
  from Cons.IH[OF l1 inv1 inv2] t nz show ?case by auto
qed

lemma usub32_zero_one: "usub32 0 1 = 2 ^ 32 - 1"
  by (simp add: usub32_def)

lemma usub32_pos_one: "1 \<le> a \<Longrightarrow> a < 2 ^ 32 \<Longrightarrow> usub32 a 1 = a - 1"
proof -
  assume a: "1 \<le> a" "a < 2 ^ 32"
  have "a + 2 ^ 32 - 1 mod 2 ^ 32 = (a - 1) + 2 ^ 32" using a by simp
  then have "usub32 a 1 = ((a - 1) + 2 ^ 32) mod 2 ^ 32" by (simp only: usub32_def)
  also have "\<dots> = (a - 1) mod 2 ^ 32" by (rule mod_add_self2)
  also have "\<dots> = a - 1" using a by (intro mod_less) simp
  finally show ?thesis .
qed

text \<open>
  Claim C9. In a non-null evaluation of variant 2 whose loop completes, the final read of
  the decomposition table, at \<^verbatim>\<open>statePairWithMaxTerm_1based - 1\<close>, is in bounds exactly when
  some term is nonzero. When every term is zero the variable still holds its initial 0,
  the index wraps around to \<open>2\<^sup>3\<^sup>2 - 1\<close> and the read is out of range. (The table's
  length is an \<^verbatim>\<open>unsigned int\<close>.)
\<close>

theorem KLs_dominant_lookup:
  assumes "\<not> m_writeNullMetric st" "KLs_metric st = Inr acc"
    "length (m_unorderedStatePairDecompositions st) < 2 ^ 32"
  shows "(KLs_dominantIndex acc < length (m_unorderedStatePairDecompositions st)
            \<longleftrightarrow> (\<exists>i < length (m_Ps1numerators st). \<exists>t. KLs_term st i = Inr t \<and> t \<noteq> 0))
       \<and> ((\<forall>i < length (m_Ps1numerators st). KLs_term st i = Inr 0)
            \<longrightarrow> statePairWithMaxTerm_1based acc = 0 \<and> KLs_dominantIndex acc = 2 ^ 32 - 1
              \<and> KLs_computeAndWriteMetric st = Inl OutOfRange)"
proof -
  let ?tbl = "m_unorderedStatePairDecompositions st"
  let ?init = "\<lparr>retVal = 0, contribOfEachState = replicate (m_numStates st) 0,
        contribOfMaxStatePairTerm = 0, statePairWithMaxTerm_1based = 0\<rparr>"
  from assms(2) have l: "loopE (KLs_step st) [0..<length (m_Ps1numerators st)] ?init = Inr acc"
    by (simp only: KLs_metric_def)
  from KLs_loop_dominant[OF assms(1) l]
  have z: "contribOfMaxStatePairTerm acc = 0 \<longrightarrow> statePairWithMaxTerm_1based acc = 0"
    and nz: "contribOfMaxStatePairTerm acc \<noteq> 0 \<longrightarrow>
         1 \<le> statePairWithMaxTerm_1based acc \<and> statePairWithMaxTerm_1based acc \<le> length ?tbl"
    and iff: "contribOfMaxStatePairTerm acc \<noteq> 0 \<longleftrightarrow>
         (\<exists>i \<in> set [0..<length (m_Ps1numerators st)]. \<exists>t. KLs_term st i = Inr t \<and> t \<noteq> 0)"
    by simp_all
  have ex: "(\<exists>i \<in> set [0..<length (m_Ps1numerators st)]. \<exists>t. KLs_term st i = Inr t \<and> t \<noteq> 0)
      \<longleftrightarrow> (\<exists>i < length (m_Ps1numerators st). \<exists>t. KLs_term st i = Inr t \<and> t \<noteq> 0)"
    by (simp only: set_upt atLeastLessThan_iff) auto
  have first: "KLs_dominantIndex acc < length ?tbl
            \<longleftrightarrow> (\<exists>i < length (m_Ps1numerators st). \<exists>t. KLs_term st i = Inr t \<and> t \<noteq> 0)"
  proof (cases "contribOfMaxStatePairTerm acc = 0")
    case True
    with z have "KLs_dominantIndex acc = 2 ^ 32 - 1" by (simp only: KLs_dominantIndex_def usub32_zero_one)
    with assms(3) have "\<not> KLs_dominantIndex acc < length ?tbl" by linarith
    with True iff ex show ?thesis by blast
  next
    case False
    with nz have b: "1 \<le> statePairWithMaxTerm_1based acc" "statePairWithMaxTerm_1based acc \<le> length ?tbl"
      by simp_all
    then have "statePairWithMaxTerm_1based acc < 2 ^ 32" using assms(3) by linarith
    with b have "KLs_dominantIndex acc = statePairWithMaxTerm_1based acc - 1"
      by (simp only: KLs_dominantIndex_def usub32_pos_one)
    with b have "KLs_dominantIndex acc < length ?tbl" by linarith
    with False iff ex show ?thesis by blast
  qed
  have second: "(\<forall>i < length (m_Ps1numerators st). KLs_term st i = Inr 0)
            \<longrightarrow> statePairWithMaxTerm_1based acc = 0 \<and> KLs_dominantIndex acc = 2 ^ 32 - 1
              \<and> KLs_computeAndWriteMetric st = Inl OutOfRange"
  proof
    assume a: "\<forall>i < length (m_Ps1numerators st). KLs_term st i = Inr 0"
    then have "\<not> (\<exists>i < length (m_Ps1numerators st). \<exists>t. KLs_term st i = Inr t \<and> t \<noteq> 0)" by auto
    with iff ex have c0: "contribOfMaxStatePairTerm acc = 0" by blast
    with z have sp: "statePairWithMaxTerm_1based acc = 0" by simp
    then have di: "KLs_dominantIndex acc = 2 ^ 32 - 1" by (simp only: KLs_dominantIndex_def usub32_zero_one)
    with assms(3) have "\<not> KLs_dominantIndex acc < length ?tbl" by linarith
    then have "vec_at ?tbl (KLs_dominantIndex acc) = Inl OutOfRange" by (simp add: vec_at_def)
    then have "KLs_computeAndWriteMetric st = Inl OutOfRange"
      using assms(1,2) by (simp add: KLs_computeAndWriteMetric_def)
    with sp di show "statePairWithMaxTerm_1based acc = 0 \<and> KLs_dominantIndex acc = 2 ^ 32 - 1
              \<and> KLs_computeAndWriteMetric st = Inl OutOfRange" by simp
  qed
  from first second show ?thesis by (rule conjI)
qed

lemma extend_logs_first_length:
  "length (extend_logs [] 0 b1 b2) = b1 + 1"
  by (simp add: extend_logs_def)

lemma extend_logs_second_length:
  assumes "g2 \<noteq> 0" "length logs = b1 + 1"
  shows "length (extend_logs logs g2 b1' b2) = max b1 b2 + 1"
  using assms by (auto simp: extend_logs_def)

lemma KL_logs_first:
  assumes "KL_getQcontrib (KL_init nulls chrom) [line] Nsites = Inr s1"
  shows "length (m_logsOfObservationTallies s1) = m_group1size s1 + 1"
  using assms
  by (cases "KL_groupSize (sum_list line mod 2 ^ 64) Nsites")
     (auto simp: KL_getQcontrib_def KL_init_def Let_def extend_logs_def split: if_splits)

lemma KL_logs_second:
  assumes "KL_getQcontrib s1 [line] Nsites = Inr s2" "m_group1size s1 \<noteq> 0" "m_group2size s2 \<noteq> 0"
    "length (m_logsOfObservationTallies s1) = m_group1size s1 + 1"
  shows "length (m_logsOfObservationTallies s2) = max (m_group1size s2) (m_group2size s2) + 1"
  using assms
  by (cases "KL_groupSize (sum_list line mod 2 ^ 64) Nsites")
     (auto simp: KL_getQcontrib_def Let_def extend_logs_def split: if_splits)

lemma KLs_logs_first:
  assumes "KLs_getQcontrib (KLs_init nulls chrom) [line] Nsites = Inr s1"
  shows "length (m_logsOfObservationTallies_s s1) = pairs32 (m_group1size s1) + 1"
  using assms
  by (cases "KLs_groupSize (sum_list line mod 2 ^ 64) Nsites";
      cases "unorderedStatePairDecompositions_of (KLs_numStates (length line))")
     (auto simp: KLs_getQcontrib_def KLs_init_def Let_def extend_logs_def split: if_splits)

lemma KLs_logs_second:
  assumes "KLs_getQcontrib s1 [line] Nsites = Inr s2" "m_group1size s1 \<noteq> 0" "m_group2size s2 \<noteq> 0"
    "length (m_logsOfObservationTallies_s s1) = pairs32 (m_group1size s1) + 1"
  shows "length (m_logsOfObservationTallies_s s2)
           = max (pairs32 (m_group1size s2)) (pairs32 (m_group2size s2)) + 1"
  using assms
  by (cases "KLs_groupSize (sum_list line mod 2 ^ 64) Nsites";
      cases "unorderedStatePairDecompositions_of (m_numStates s1)")
     (auto simp: KLs_getQcontrib_def Let_def extend_logs_def split: if_splits)

text \<open>
  Claim C10, amended. In variants 1 and 2 the table of logarithms that the builder leaves
  has the indices 0 to \<^verbatim>\<open>m_group1size\<close> (variant 2: to the number of pairs of group 1)
  after the first background and 0 to the larger of the two groups' bounds after the
  second; both groups read the same table. The term of an identifier reads the table
  at an observed count only if the count is nonzero and the background contribution
  there is not below \<open>- 999\<close>, and it is computed without a read out of range exactly
  when each such count is below the table's length.
\<close>

theorem log_table_bounds:
  "(KL_getQcontrib (KL_init nulls chrom) [line1] Nsites = Inr s1 \<longrightarrow>
      length (m_logsOfObservationTallies s1) = m_group1size s1 + 1)
   \<and> (KL_getQcontrib (KL_init nulls chrom) [line1] Nsites = Inr s1 \<and> m_group1size s1 \<noteq> 0
       \<and> KL_getQcontrib s1 [line2] Nsites = Inr s2 \<and> m_group2size s2 \<noteq> 0 \<longrightarrow>
      length (m_logsOfObservationTallies s2) = max (m_group1size s2) (m_group2size s2) + 1)
   \<and> (i < length (m_P1numerators st) \<and> i < length (m_Q1contrib st)
       \<and> (m_group2size st \<noteq> 0 \<longrightarrow> i < length (m_P2numerators st) \<and> i < length (m_Q2contrib st)) \<longrightarrow>
      ((\<exists>t. KL_term st i = Inr t) \<longleftrightarrow>
         (m_P1numerators st ! i \<noteq> 0 \<and> \<not> m_Q1contrib st ! i < - 999
            \<longrightarrow> m_P1numerators st ! i < length (m_logsOfObservationTallies st))
         \<and> (m_group2size st \<noteq> 0 \<and> m_P2numerators st ! i \<noteq> 0 \<and> \<not> m_Q2contrib st ! i < - 999
            \<longrightarrow> m_P2numerators st ! i < length (m_logsOfObservationTallies st))))
   \<and> (KLs_getQcontrib (KLs_init nulls2 chrom2) [line3] Nsites2 = Inr r1 \<longrightarrow>
      length (m_logsOfObservationTallies_s r1) = pairs32 (m_group1size r1) + 1)
   \<and> (KLs_getQcontrib (KLs_init nulls2 chrom2) [line3] Nsites2 = Inr r1 \<and> m_group1size r1 \<noteq> 0
       \<and> KLs_getQcontrib r1 [line4] Nsites2 = Inr r2 \<and> m_group2size r2 \<noteq> 0 \<longrightarrow>
      length (m_logsOfObservationTallies_s r2)
        = max (pairs32 (m_group1size r2)) (pairs32 (m_group2size r2)) + 1)
   \<and> (j < length (m_Ps1numerators rt) \<and> j < length (m_Qs1contrib rt)
       \<and> (m_group2size rt \<noteq> 0 \<longrightarrow> j < length (m_Ps2numerators rt) \<and> j < length (m_Qs2contrib rt)) \<longrightarrow>
      ((\<exists>t. KLs_term rt j = Inr t) \<longleftrightarrow>
         (m_Ps1numerators rt ! j \<noteq> 0 \<and> \<not> m_Qs1contrib rt ! j < - 999
            \<longrightarrow> m_Ps1numerators rt ! j < length (m_logsOfObservationTallies_s rt))
         \<and> (m_group2size rt \<noteq> 0 \<and> m_Ps2numerators rt ! j \<noteq> 0 \<and> \<not> m_Qs2contrib rt ! j < - 999
            \<longrightarrow> m_Ps2numerators rt ! j < length (m_logsOfObservationTallies_s rt))))"
proof (intro conjI impI)
  assume "KL_getQcontrib (KL_init nulls chrom) [line1] Nsites = Inr s1"
  then show "length (m_logsOfObservationTallies s1) = m_group1size s1 + 1" by (rule KL_logs_first)
next
  assume a: "KL_getQcontrib (KL_init nulls chrom) [line1] Nsites = Inr s1 \<and> m_group1size s1 \<noteq> 0
       \<and> KL_getQcontrib s1 [line2] Nsites = Inr s2 \<and> m_group2size s2 \<noteq> 0"
  then have "length (m_logsOfObservationTallies s1) = m_group1size s1 + 1"
    using KL_logs_first[of nulls chrom line1 Nsites s1] by blast
  with a show "length (m_logsOfObservationTallies s2) = max (m_group1size s2) (m_group2size s2) + 1"
    by (intro KL_logs_second[of s1 line2 Nsites]) simp_all
next
  assume "i < length (m_P1numerators st) \<and> i < length (m_Q1contrib st)
       \<and> (m_group2size st \<noteq> 0 \<longrightarrow> i < length (m_P2numerators st) \<and> i < length (m_Q2contrib st))"
  then show "(\<exists>t. KL_term st i = Inr t) \<longleftrightarrow>
         (m_P1numerators st ! i \<noteq> 0 \<and> \<not> m_Q1contrib st ! i < - 999
            \<longrightarrow> m_P1numerators st ! i < length (m_logsOfObservationTallies st))
         \<and> (m_group2size st \<noteq> 0 \<and> m_P2numerators st ! i \<noteq> 0 \<and> \<not> m_Q2contrib st ! i < - 999
            \<longrightarrow> m_P2numerators st ! i < length (m_logsOfObservationTallies st))"
    by (intro KL_term_defined) simp_all
next
  assume "KLs_getQcontrib (KLs_init nulls2 chrom2) [line3] Nsites2 = Inr r1"
  then show "length (m_logsOfObservationTallies_s r1) = pairs32 (m_group1size r1) + 1" by (rule KLs_logs_first)
next
  assume a: "KLs_getQcontrib (KLs_init nulls2 chrom2) [line3] Nsites2 = Inr r1 \<and> m_group1size r1 \<noteq> 0
       \<and> KLs_getQcontrib r1 [line4] Nsites2 = Inr r2 \<and> m_group2size r2 \<noteq> 0"
  then have "length (m_logsOfObservationTallies_s r1) = pairs32 (m_group1size r1) + 1"
    using KLs_logs_first[of nulls2 chrom2 line3 Nsites2 r1] by blast
  with a show "length (m_logsOfObservationTallies_s r2)
        = max (pairs32 (m_group1size r2)) (pairs32 (m_group2size r2)) + 1"
    by (intro KLs_logs_second[of r1 line4 Nsites2]) simp_all
next
  assume "j < length (m_Ps1numerators rt) \<and> j < length (m_Qs1contrib rt)
       \<and> (m_group2size rt \<noteq> 0 \<longrightarrow> j < length (m_Ps2numerators rt) \<and> j < length (m_Qs2contrib rt))"
  then show "(\<exists>t. KLs_term rt j = Inr t) \<longleftrightarrow>
         (m_Ps1numerators rt ! j \<noteq> 0 \<and> \<not> m_Qs1contrib rt ! j < - 999
            \<longrightarrow> m_Ps1numerators rt ! j < length (m_logsOfObservationTallies_s rt))
         \<and> (m_group2size rt \<noteq> 0 \<and> m_Ps2numerators rt ! j \<noteq> 0 \<and> \<not> m_Qs2contrib rt ! j < - 999
            \<longrightarrow> m_Ps2numerators rt ! j < length (m_logsOfObservationTallies_s rt))"
    by (intro KLs_term_defined) simp_all
qed

section \<open>Null mode against non-null mode\<close>

lemma loopE_sim:
  fixes step1 step2 :: "'i \<Rightarrow> 'a \<Rightarrow> error + 'a"
  assumes step: "\<And>i a a' b. step1 i a = Inr a' \<Longrightarrow> R a b \<Longrightarrow> \<exists>b'. step2 i b = Inr b' \<and> R a' b'"
    and loop: "loopE step1 ids a = Inr a'" and R: "R a b"
  shows "\<exists>b'. loopE step2 ids b = Inr b' \<and> R a' b'"
  using loop R
proof (induction ids arbitrary: a b)
  case Nil
  then show ?case by simp
next
  case (Cons i ids)
  from Cons.prems(1) obtain a1 where s1: "step1 i a = Inr a1" and l: "loopE step1 ids a1 = Inr a'"
    by (cases "step1 i a") auto
  from step[OF s1 Cons.prems(2)] obtain b1 where s2: "step2 i b = Inr b1" and R1: "R a1 b1" by blast
  from Cons.IH[OF l R1] s2 show ?case by simp
qed

lemma bindE_InrD: "bindE m f = Inr y \<Longrightarrow> \<exists>x. m = Inr x \<and> f x = Inr y"
  by (cases m) simp_all

lemma KL_term_flag [simp]:
  "KL_term (st\<lparr>m_writeNullMetric := f, m_curBegPos := cb, m_curEndPos := ce\<rparr>) i = KL_term st i"
  by (simp add: KL_term_def cong: if_cong)

lemma KLs_term_flag [simp]:
  "KLs_term (st\<lparr>m_writeNullMetric := f, m_curBegPos := cb, m_curEndPos := ce\<rparr>) i = KLs_term st i"
  by (simp add: KLs_term_def cong: if_cong)

lemma KLss_term_flag [simp]:
  "KLss_term (st\<lparr>m_writeNullMetric := f, m_curBegPos := cb, m_curEndPos := ce\<rparr>) entry = KLss_term st entry"
  by (simp add: KLss_term_def)

lemma KL_step_null:
  assumes "m_writeNullMetric st" "KL_term st i = Inr t"
  shows "KL_step st i b = Inr (b\<lparr>retVal := retVal b + (if m_group2size st = 0 then t else \<bar>t\<bar>)\<rparr>)"
  using assms by (simp add: KL_step_def)

lemma KLs_step_null:
  assumes "m_writeNullMetric st" "KLs_term st i = Inr t"
  shows "KLs_step st i b = Inr (b\<lparr>retVal := retVal b + (if m_group2size st = 0 then t else \<bar>t\<bar>)\<rparr>)"
  using assms by (simp add: KLs_step_def)

lemma KLss_step_null:
  assumes "m_writeNullMetric st" "KLss_term st entry = Inr t"
  shows "KLss_step st entry b = Inr (b\<lparr>retVal := retVal b + (if m_group2size st = 0 then t else \<bar>t\<bar>)\<rparr>)"
  using assms by (simp add: KLss_step_def)

lemma KL_metric_null:
  assumes "KL_metric (st\<lparr>m_writeNullMetric := False, m_curBegPos := cb, m_curEndPos := ce\<rparr>) = Inr a"
    "m_writeNullMetric st"
  shows "\<exists>a'. KL_metric st = Inr a' \<and> retVal a' = retVal a"
proof -
  let ?nn = "st\<lparr>m_writeNullMetric := False, m_curBegPos := cb, m_curEndPos := ce\<rparr>"
  let ?init = "\<lparr>retVal = 0, contribOfEachState = replicate (m_numStates st) 0\<rparr>"
  have l: "loopE (KL_step ?nn) ([0..<length (m_P1numerators st)]) ?init = Inr a"
    using assms(1) by (simp add: KL_metric_def del: upt_Suc)
  have "\<exists>b'. loopE (KL_step st) ([0..<length (m_P1numerators st)]) ?init = Inr b' \<and> retVal a = retVal b'"
  proof (rule loopE_sim[where R = "\<lambda>x y. retVal x = retVal y", OF _ l])
    fix i x x' and y :: eval_acc
    assume s: "KL_step ?nn i x = Inr x'" and r: "retVal x = retVal y"
    from KL_step_retVal[OF s] obtain t where t: "KL_term st i = Inr t"
      "retVal x' = retVal x + (if m_group2size st = 0 then t else \<bar>t\<bar>)" by auto
    from KL_step_null[OF assms(2) t(1), of y] t(2) r
    show "\<exists>y'. KL_step st i y = Inr y' \<and> retVal x' = retVal y'" by simp
  next
    show "retVal ?init = retVal ?init" by simp
  qed
  then show ?thesis by (auto simp add: KL_metric_def simp del: upt_Suc)
qed

lemma KLs_metric_null:
  assumes "KLs_metric (st\<lparr>m_writeNullMetric := False, m_curBegPos := cb, m_curEndPos := ce\<rparr>) = Inr a"
    "m_writeNullMetric st"
  shows "\<exists>a'. KLs_metric st = Inr a' \<and> retVal a' = retVal a"
proof -
  let ?nn = "st\<lparr>m_writeNullMetric := False, m_curBegPos := cb, m_curEndPos := ce\<rparr>"
  let ?init = "\<lparr>retVal = 0, contribOfEachState = replicate (m_numStates st) 0, contribOfMaxStatePairTerm = 0, statePairWithMaxTerm_1based = 0\<rparr>"
  have l: "loopE (KLs_step ?nn) ([0..<length (m_Ps1numerators st)]) ?init = Inr a"
    using assms(1) by (simp add: KLs_metric_def del: upt_Suc)
  have "\<exists>b'. loopE (KLs_step st) ([0..<length (m_Ps1numerators st)]) ?init = Inr b' \<and> retVal a = retVal b'"
  proof (rule loopE_sim[where R = "\<lambda>x y. retVal x = retVal y", OF _ l])
    fix i x x' and y :: KLs_acc
    assume s: "KLs_step ?nn i x = Inr x'" and r: "retVal x = retVal y"
    from KLs_step_retVal[OF s] obtain t where t: "KLs_term st i = Inr t"
      "retVal x' = retVal x + (if m_group2size st = 0 then t else \<bar>t\<bar>)" by auto
    from KLs_step_null[OF assms(2) t(1), of y] t(2) r
    show "\<exists>y'. KLs_step st i y = Inr y' \<and> retVal x' = retVal y'" by simp
  next
    show "retVal ?init = retVal ?init" by simp
  qed
  then show ?thesis by (auto simp add: KLs_metric_def simp del: upt_Suc)
qed

lemma KLss_metric_null:
  assumes "KLss_metric (st\<lparr>m_writeNullMetric := False, m_curBegPos := cb, m_curEndPos := ce\<rparr>) = Inr a"
    "m_writeNullMetric st"
  shows "\<exists>a'. KLss_metric st = Inr a' \<and> retVal a' = retVal a"
proof -
  let ?nn = "st\<lparr>m_writeNullMetric := False, m_curBegPos := cb, m_curEndPos := ce\<rparr>"
  let ?init = "\<lparr>retVal = 0, contribOfEachState = replicate (m_numStates st) 0, contribOfMaxStatePairGroupTerm = 0, statePairGroupWithMaxTerm_1based = 0\<rparr>"
  have l: "loopE (KLss_step ?nn) (m_statePairGroupObservationsAtThisSite st) ?init = Inr a"
    using assms(1) by (simp add: KLss_metric_def del: upt_Suc)
  have "\<exists>b'. loopE (KLss_step st) (m_statePairGroupObservationsAtThisSite st) ?init = Inr b' \<and> retVal a = retVal b'"
  proof (rule loopE_sim[where R = "\<lambda>x y. retVal x = retVal y", OF _ l])
    fix i x x' and y :: KLss_acc
    assume s: "KLss_step ?nn i x = Inr x'" and r: "retVal x = retVal y"
    from KLss_step_retVal[OF s] obtain t where t: "KLss_term st i = Inr t"
      "retVal x' = retVal x + (if m_group2size st = 0 then t else \<bar>t\<bar>)" by auto
    from KLss_step_null[OF assms(2) t(1), of y] t(2) r
    show "\<exists>y'. KLss_step st i y = Inr y' \<and> retVal x' = retVal y'" by simp
  next
    show "retVal ?init = retVal ?init" by simp
  qed
  then show ?thesis by (auto simp add: KLss_metric_def simp del: upt_Suc)
qed

lemma KL_processInputValue_null:
  assumes "cb \<noteq> - 1" "ce \<noteq> - 1"
  shows "KL_processInputValue (st\<lparr>m_writeNullMetric := False, m_curBegPos := cb, m_curEndPos := ce\<rparr>) v
    = (case KL_processInputValue (st\<lparr>m_writeNullMetric := True\<rparr>) v of
         Inl e \<Rightarrow> Inl e
       | Inr s \<Rightarrow> Inr (s\<lparr>m_writeNullMetric := False, m_curBegPos := cb, m_curEndPos := ce\<rparr>))"
  using assms by (simp add: KL_processInputValue_def)

lemma KLs_processInputValue_null:
  assumes "cb \<noteq> - 1" "ce \<noteq> - 1"
  shows "KLs_processInputValue (st\<lparr>m_writeNullMetric := False, m_curBegPos := cb, m_curEndPos := ce\<rparr>) v
    = (case KLs_processInputValue (st\<lparr>m_writeNullMetric := True\<rparr>) v of
         Inl e \<Rightarrow> Inl e
       | Inr s \<Rightarrow> Inr (s\<lparr>m_writeNullMetric := False, m_curBegPos := cb, m_curEndPos := ce\<rparr>))"
  using assms by (simp add: KLs_processInputValue_def)

lemma KLss_processInputValue_null:
  assumes "cb \<noteq> - 1" "ce \<noteq> - 1"
  shows "KLss_processInputValue (st\<lparr>m_writeNullMetric := False, m_curBegPos := cb, m_curEndPos := ce\<rparr>) v
    = (case KLss_processInputValue (st\<lparr>m_writeNullMetric := True\<rparr>) v of
         Inl e \<Rightarrow> Inl e
       | Inr s \<Rightarrow> Inr (s\<lparr>m_writeNullMetric := False, m_curBegPos := cb, m_curEndPos := ce\<rparr>))"
  using assms by (simp add: KLss_processInputValue_def Let_def)

lemma set_nulls_id: "writingNulls m \<Longrightarrow> set_nulls True m = m"
  by (cases m) simp_all

lemma processInputValue_null:
  assumes "cb \<noteq> - 1" "ce \<noteq> - 1" "writingNulls m"
  shows "processInputValue (with_coordinates cb ce (set_nulls False m)) v
    = (case processInputValue m v of
         Inl e \<Rightarrow> Inl e
       | Inr m' \<Rightarrow> Inr (with_coordinates cb ce (set_nulls False m')))"
proof (cases m)
  case (KL_model st)
  with assms(3) have "st\<lparr>m_writeNullMetric := True\<rparr> = st" by simp
  with KL_processInputValue_null[OF assms(1,2), of st v] KL_model show ?thesis
    by (cases "KL_processInputValue st v") simp_all
next
  case (KLs_model st)
  with assms(3) have "st\<lparr>m_writeNullMetric := True\<rparr> = st" by simp
  with KLs_processInputValue_null[OF assms(1,2), of st v] KLs_model show ?thesis
    by (cases "KLs_processInputValue st v") simp_all
next
  case (KLss_model st)
  with assms(3) have "st\<lparr>m_writeNullMetric := True\<rparr> = st" by simp
  with KLss_processInputValue_null[OF assms(1,2), of st v] KLss_model show ?thesis
    by (cases "KLss_processInputValue st v") simp_all
qed

lemma KL_processInputValue_keeps:
  "KL_processInputValue st v = Inr st' \<Longrightarrow>
     m_writeNullMetric st' = m_writeNullMetric st \<and> m_size st' = m_size st
     \<and> m_ofsObs st' = m_ofsObs st \<and> m_ofsScores st' = m_ofsScores st
     \<and> m_ofsNullValues st' = m_ofsNullValues st"
  by (auto simp: KL_processInputValue_def split: if_splits)

lemma KLs_processInputValue_keeps:
  "KLs_processInputValue st v = Inr st' \<Longrightarrow>
     m_writeNullMetric st' = m_writeNullMetric st \<and> m_size st' = m_size st
     \<and> m_ofsObs st' = m_ofsObs st \<and> m_ofsScores st' = m_ofsScores st
     \<and> m_ofsNullValues st' = m_ofsNullValues st"
  by (auto simp: KLs_processInputValue_def split: if_splits)

lemma KLss_processInputValue_keeps:
  "KLss_processInputValue st v = Inr st' \<Longrightarrow>
     m_writeNullMetric st' = m_writeNullMetric st \<and> m_size st' = m_size st
     \<and> m_ofsObs st' = m_ofsObs st \<and> m_ofsScores st' = m_ofsScores st
     \<and> m_ofsNullValues st' = m_ofsNullValues st"
  by (auto simp: KLss_processInputValue_def Let_def split: if_splits)

lemma processInputValue_keeps:
  assumes "processInputValue m v = Inr m'"
  shows "writingNulls m' = writingNulls m \<and> size_of m' = size_of m \<and> streams m' = streams m"
proof (cases m)
  case (KL_model st)
  with assms obtain st' where "KL_processInputValue st v = Inr st'" "m' = KL_model st'"
    by (cases "KL_processInputValue st v") auto
  with KL_model KL_processInputValue_keeps[of st v st'] show ?thesis by simp
next
  case (KLs_model st)
  with assms obtain st' where "KLs_processInputValue st v = Inr st'" "m' = KLs_model st'"
    by (cases "KLs_processInputValue st v") auto
  with KLs_model KLs_processInputValue_keeps[of st v st'] show ?thesis by simp
next
  case (KLss_model st)
  with assms obtain st' where "KLss_processInputValue st v = Inr st'" "m' = KLss_model st'"
    by (cases "KLss_processInputValue st v") auto
  with KLss_model KLss_processInputValue_keeps[of st v st'] show ?thesis by simp
qed

lemma processTokens_keeps:
  "processTokens m vs = (r, m') \<Longrightarrow>
     writingNulls m' = writingNulls m \<and> size_of m' = size_of m \<and> streams m' = streams m"
proof (induction vs arbitrary: m)
  case Nil
  then show ?case by simp
next
  case (Cons v vs)
  show ?case
  proof (cases "processInputValue m v")
    case (Inl e)
    with Cons.prems show ?thesis by simp
  next
    case (Inr m1)
    with Cons.prems have "processTokens m1 vs = (r, m')" by simp
    from Cons.IH[OF this] processInputValue_keeps[OF Inr] show ?thesis by simp
  qed
qed

lemma processTokens_null:
  assumes "cb \<noteq> - 1" "ce \<noteq> - 1"
  shows "processTokens (with_coordinates cb ce (set_nulls False m)) vs = (None, m1) \<Longrightarrow> writingNulls m
     \<Longrightarrow> \<exists>m2. processTokens m vs = (None, m2) \<and> m1 = with_coordinates cb ce (set_nulls False m2)
           \<and> writingNulls m2"
proof (induction vs arbitrary: m)
  case Nil
  then show ?case by simp
next
  case (Cons v vs)
  note sim = processInputValue_null[OF assms Cons.prems(2), of v]
  show ?case
  proof (cases "processInputValue m v")
    case (Inl e)
    with sim Cons.prems(1) show ?thesis by simp
  next
    case (Inr m')
    with sim Cons.prems(1)
    have l: "processTokens (with_coordinates cb ce (set_nulls False m')) vs = (None, m1)" by simp
    have w: "writingNulls m'" using processInputValue_keeps[OF Inr] Cons.prems(2) by simp
    from Cons.IH[OF l w] Inr show ?thesis by simp
  qed
qed

lemma KL_compute_null:
  assumes "KL_computeAndWriteMetric (st\<lparr>m_writeNullMetric := False, m_curBegPos := cb, m_curEndPos := ce\<rparr>) = Inr s1"
    "m_writeNullMetric st"
  shows "\<exists>s2 r l. KL_computeAndWriteMetric st = Inr s2
           \<and> m_ofsNullValues s2 = m_ofsNullValues st @ [r]
           \<and> m_ofsObs s1 = m_ofsObs st @ [l] \<and> obs_retVal l = r"
proof -
  let ?nn = "st\<lparr>m_writeNullMetric := False, m_curBegPos := cb, m_curEndPos := ce\<rparr>"
  from assms(1) obtain a where a: "KL_metric ?nn = Inr a"
    by (cases "KL_metric ?nn") (simp_all add: KL_computeAndWriteMetric_def)
  from assms(1) a obtain k where k: "max_element_abs (contribOfEachState a) = Inr k"
    by (cases "max_element_abs (contribOfEachState a)") (simp_all add: KL_computeAndWriteMetric_def)
  from assms(1) a k have o: "m_ofsObs s1 = m_ofsObs st @
      [ObsState (m_chrom st) cb ce (k + 1) \<bar>contribOfEachState a ! k\<bar>
         (sign_text (contribOfEachState a ! k)) (retVal a)]"
    by (auto simp: KL_computeAndWriteMetric_def KL_reset_def)
  from KL_metric_null[OF a assms(2)] obtain a' where a': "KL_metric st = Inr a'" "retVal a' = retVal a"
    by blast
  have "KL_computeAndWriteMetric st
      = Inr (KL_reset (st\<lparr>m_ofsNullValues := m_ofsNullValues st @ [retVal a']\<rparr>))"
    using a' assms(2) by (simp add: KL_computeAndWriteMetric_def)
  moreover have "m_ofsNullValues (KL_reset (st\<lparr>m_ofsNullValues := m_ofsNullValues st @ [retVal a']\<rparr>))
      = m_ofsNullValues st @ [retVal a']"
    by (simp add: KL_reset_def)
  ultimately show ?thesis using o a'(2) by auto
qed

lemma KLs_compute_null:
  assumes "KLs_computeAndWriteMetric (st\<lparr>m_writeNullMetric := False, m_curBegPos := cb, m_curEndPos := ce\<rparr>) = Inr s1"
    "m_writeNullMetric st"
  shows "\<exists>s2 r l. KLs_computeAndWriteMetric st = Inr s2
           \<and> m_ofsNullValues s2 = m_ofsNullValues st @ [r]
           \<and> m_ofsObs s1 = m_ofsObs st @ [l] \<and> obs_retVal l = r"
proof -
  let ?nn = "st\<lparr>m_writeNullMetric := False, m_curBegPos := cb, m_curEndPos := ce\<rparr>"
  from assms(1) obtain a where a: "KLs_metric ?nn = Inr a"
    by (cases "KLs_metric ?nn") (simp_all add: KLs_computeAndWriteMetric_def)
  from assms(1) a obtain p where p: "vec_at (m_unorderedStatePairDecompositions st) (KLs_dominantIndex a) = Inr p"
    by (cases "vec_at (m_unorderedStatePairDecompositions st) (KLs_dominantIndex a)")
       (simp_all add: KLs_computeAndWriteMetric_def)
  from assms(1) a p obtain k where k: "max_element_abs (contribOfEachState a) = Inr k"
    by (cases "max_element_abs (contribOfEachState a)")
       (simp_all add: KLs_computeAndWriteMetric_def split: prod.splits)
  from assms(1) a p k have o: "m_ofsObs s1 = m_ofsObs st @
      [ObsStatePair (m_chrom st) cb ce (k + 1) \<bar>contribOfEachState a ! k\<bar>
         (sign_text (contribOfEachState a ! k)) p \<bar>contribOfMaxStatePairTerm a\<bar>
         (sign_text (contribOfMaxStatePairTerm a)) (retVal a)]"
    by (auto simp: KLs_computeAndWriteMetric_def KLs_reset_def split: prod.splits)
  from KLs_metric_null[OF a assms(2)] obtain a' where a': "KLs_metric st = Inr a'" "retVal a' = retVal a"
    by blast
  have "KLs_computeAndWriteMetric st
      = Inr (KLs_reset (st\<lparr>m_ofsNullValues := m_ofsNullValues st @ [retVal a']\<rparr>))"
    using a' assms(2) by (simp add: KLs_computeAndWriteMetric_def)
  moreover have "m_ofsNullValues (KLs_reset (st\<lparr>m_ofsNullValues := m_ofsNullValues st @ [retVal a']\<rparr>))
      = m_ofsNullValues st @ [retVal a']"
    by (simp add: KLs_reset_def)
  ultimately show ?thesis using o a'(2) by auto
qed

lemma KLss_compute_null:
  assumes "KLss_computeAndWriteMetric (st\<lparr>m_writeNullMetric := False, m_curBegPos := cb, m_curEndPos := ce\<rparr>) = Inr s1"
    "m_writeNullMetric st"
  shows "\<exists>s2 r l. KLss_computeAndWriteMetric st = Inr s2
           \<and> m_ofsNullValues s2 = m_ofsNullValues st @ [r]
           \<and> m_ofsObs s1 = m_ofsObs st @ [l] \<and> obs_retVal l = r"
proof -
  let ?nn = "st\<lparr>m_writeNullMetric := False, m_curBegPos := cb, m_curEndPos := ce\<rparr>"
  from assms(1) obtain a where a: "KLss_metric ?nn = Inr a"
    by (cases "KLss_metric ?nn") (simp_all add: KLss_computeAndWriteMetric_def)
  from assms(1) a have n: "m_numStates st \<noteq> 0"
    by (auto simp: KLss_computeAndWriteMetric_def split: if_splits)
  from assms(1) a n obtain k where k: "max_element_abs (contribOfEachState a) = Inr k"
    by (cases "max_element_abs (contribOfEachState a)")
       (simp_all add: KLss_computeAndWriteMetric_def)
  from assms(1) a n k have o: "m_ofsObs s1 = m_ofsObs st @
      [ObsStatePair (m_chrom st) cb ce (k + 1) \<bar>contribOfEachState a ! k\<bar>
         (sign_text (contribOfEachState a ! k))
         (row_column (m_numStates st) (statePairGroupWithMaxTerm_1based a))
         \<bar>contribOfMaxStatePairGroupTerm a\<bar>
         (sign_text (contribOfMaxStatePairGroupTerm a)) (retVal a)]"
    by (auto simp: KLss_computeAndWriteMetric_def KLss_reset_def)
  from KLss_metric_null[OF a assms(2)] obtain a' where a': "KLss_metric st = Inr a'" "retVal a' = retVal a"
    by blast
  have "KLss_computeAndWriteMetric st
      = Inr (KLss_reset (st\<lparr>m_ofsNullValues := m_ofsNullValues st @ [retVal a']\<rparr>))"
    using a' assms(2) by (simp add: KLss_computeAndWriteMetric_def)
  moreover have "m_ofsNullValues (KLss_reset (st\<lparr>m_ofsNullValues := m_ofsNullValues st @ [retVal a']\<rparr>))
      = m_ofsNullValues st @ [retVal a']"
    by (simp add: KLss_reset_def)
  ultimately show ?thesis using o a'(2) by auto
qed

lemma compute_null:
  assumes "computeAndWriteMetric (with_coordinates cb ce (set_nulls False m)) = Inr m1" "writingNulls m"
  shows "\<exists>m2 r l. computeAndWriteMetric m = Inr m2
           \<and> ofsNullValues_of m2 = ofsNullValues_of m @ [r]
           \<and> ofsObs_of m1 = ofsObs_of m @ [l] \<and> obs_retVal l = r"
proof (cases m)
  case (KL_model st)
  with assms(1) obtain s1 where s1: "KL_computeAndWriteMetric
      (st\<lparr>m_writeNullMetric := False, m_curBegPos := cb, m_curEndPos := ce\<rparr>) = Inr s1"
    "m1 = KL_model s1"
    by (cases "KL_computeAndWriteMetric (st\<lparr>m_writeNullMetric := False, m_curBegPos := cb, m_curEndPos := ce\<rparr>)")
       auto
  from KL_compute_null[OF s1(1)] assms(2) KL_model obtain s2 r l where
    "KL_computeAndWriteMetric st = Inr s2" "m_ofsNullValues s2 = m_ofsNullValues st @ [r]"
    "m_ofsObs s1 = m_ofsObs st @ [l]" "obs_retVal l = r" by auto
  with KL_model s1(2) show ?thesis
    by (intro exI[of _ "KL_model s2"] exI[of _ r] exI[of _ l])
       (simp add: ofsNullValues_of_def ofsObs_of_def)
next
  case (KLs_model st)
  with assms(1) obtain s1 where s1: "KLs_computeAndWriteMetric
      (st\<lparr>m_writeNullMetric := False, m_curBegPos := cb, m_curEndPos := ce\<rparr>) = Inr s1"
    "m1 = KLs_model s1"
    by (cases "KLs_computeAndWriteMetric (st\<lparr>m_writeNullMetric := False, m_curBegPos := cb, m_curEndPos := ce\<rparr>)")
       auto
  from KLs_compute_null[OF s1(1)] assms(2) KLs_model obtain s2 r l where
    "KLs_computeAndWriteMetric st = Inr s2" "m_ofsNullValues s2 = m_ofsNullValues st @ [r]"
    "m_ofsObs s1 = m_ofsObs st @ [l]" "obs_retVal l = r" by auto
  with KLs_model s1(2) show ?thesis
    by (intro exI[of _ "KLs_model s2"] exI[of _ r] exI[of _ l])
       (simp add: ofsNullValues_of_def ofsObs_of_def)
next
  case (KLss_model st)
  with assms(1) obtain s1 where s1: "KLss_computeAndWriteMetric
      (st\<lparr>m_writeNullMetric := False, m_curBegPos := cb, m_curEndPos := ce\<rparr>) = Inr s1"
    "m1 = KLss_model s1"
    by (cases "KLss_computeAndWriteMetric (st\<lparr>m_writeNullMetric := False, m_curBegPos := cb, m_curEndPos := ce\<rparr>)")
       auto
  from KLss_compute_null[OF s1(1)] assms(2) KLss_model obtain s2 r l where
    "KLss_computeAndWriteMetric st = Inr s2" "m_ofsNullValues s2 = m_ofsNullValues st @ [r]"
    "m_ofsObs s1 = m_ofsObs st @ [l]" "obs_retVal l = r" by auto
  with KLss_model s1(2) show ?thesis
    by (intro exI[of _ "KLss_model s2"] exI[of _ r] exI[of _ l])
       (simp add: ofsNullValues_of_def ofsObs_of_def)
qed

lemma coordinates_consumed:
  assumes "at_line_start m" "to_int32 b \<noteq> - 1" "to_int32 e \<noteq> - 1"
    "processTokens (set_nulls False m) (b # e # obs) = (None, m1)"
  shows "processTokens (with_coordinates (to_int32 b) (to_int32 e) (set_nulls False m)) obs = (None, m1)"
proof (cases m)
  case (KL_model st)
  with assms show ?thesis by (simp add: KL_processInputValue_def)
next
  case (KLs_model st)
  with assms show ?thesis by (simp add: KLs_processInputValue_def)
next
  case (KLss_model st)
  with assms show ?thesis by (cases "m_numStates st = 0") (simp_all add: KLss_processInputValue_def)
qed

lemma set_nulls_simps [simp]:
  "writingNulls (set_nulls b m) = b"
  "size_of (set_nulls b m) = size_of m"
  "streams (set_nulls b m) = streams m"
  "set_nulls b (set_nulls c m) = set_nulls b m"
  by (cases m; simp)+

lemma parse_one_line:
  assumes "parse_lines n m [tokens] = (None, m1)"
  shows "tokens \<noteq> [] \<and> length tokens = n
     \<and> (\<exists>mA. processTokens m tokens = (None, mA) \<and> computeAndWriteMetric mA = Inr m1)"
proof -
  from assms have ne: "tokens \<noteq> []" by (auto split: if_splits)
  obtain r mA where p: "processTokens m tokens = (r, mA)" by (cases "processTokens m tokens")
  with assms ne have r: "r = None" by (cases r) auto
  with assms ne p have len: "length tokens = n" by (auto split: if_splits)
  with assms ne p r have "computeAndWriteMetric mA = Inr m1"
    by (cases "computeAndWriteMetric mA") auto
  with ne len p r show ?thesis by blast
qed

lemma with_coordinates_id:
  "with_coordinates cb ce (with_coordinates cb' ce' m) = with_coordinates cb ce m"
  by (cases m) simp_all

lemma with_coordinates_own:
  "\<exists>cb ce. with_coordinates cb ce m = m"
proof (cases m)
  case (KL_model st)
  then have "with_coordinates (m_curBegPos st) (m_curEndPos st) m = m" by simp
  then show ?thesis by blast
next
  case (KLs_model st)
  then have "with_coordinates (m_curBegPos st) (m_curEndPos st) m = m" by simp
  then show ?thesis by blast
next
  case (KLss_model st)
  then have "with_coordinates (m_curBegPos st) (m_curEndPos st) m = m" by simp
  then show ?thesis by blast
qed

lemma set_nulls_with_coordinates:
  "set_nulls b (with_coordinates cb ce m) = with_coordinates cb ce (set_nulls b m)"
  by (cases m) simp_all

lemma null_mode_same_evaluation:
  assumes "computeAndWriteMetric (set_nulls False m) = Inr m1"
  shows "\<exists>m2 r l. computeAndWriteMetric (set_nulls True m) = Inr m2
           \<and> ofsNullValues_of m2 = ofsNullValues_of m @ [r]
           \<and> ofsObs_of m1 = ofsObs_of m @ [l] \<and> obs_retVal l = r"
proof -
  obtain cb ce where c: "with_coordinates cb ce m = m" using with_coordinates_own by blast
  have "with_coordinates cb ce (set_nulls False (set_nulls True m)) = set_nulls False m"
    using c by (simp add: set_nulls_with_coordinates[symmetric])
  with assms have "computeAndWriteMetric (with_coordinates cb ce (set_nulls False (set_nulls True m))) = Inr m1"
    by simp
  from compute_null[OF this] show ?thesis by (simp add: ofsNullValues_of_def ofsObs_of_def)
qed

lemma null_mode_same_line:
  assumes "at_line_start m" "to_int32 b \<noteq> - 1" "to_int32 e \<noteq> - 1" "obs \<noteq> []"
    "size_of m + 2 < 2 ^ 32"
    and run: "parseInputWriteOutput (set_nulls False m) [b # e # obs] = (None, m1)"
  shows "\<exists>m2 r l. parseInputWriteOutput (set_nulls True m) [obs] = (None, m2)
           \<and> ofsNullValues_of m2 = ofsNullValues_of m @ [r]
           \<and> ofsObs_of m1 = ofsObs_of m @ [l] \<and> obs_retVal l = r"
proof -
  let ?cb = "to_int32 b" and ?ce = "to_int32 e"
  let ?m0 = "set_nulls True m"
  have n: "numExpected_of (set_nulls False m) = size_of m + 2"
    using assms(5) by (simp add: numExpected_of_def)
  from run have "parse_lines (size_of m + 2) (set_nulls False m) [b # e # obs] = (None, m1)"
    by (simp only: parseInputWriteOutput_def n)
  from parse_one_line[OF this] obtain mA where
    len: "length (b # e # obs) = size_of m + 2"
    and tok: "processTokens (set_nulls False m) (b # e # obs) = (None, mA)"
    and cmp: "computeAndWriteMetric mA = Inr m1" by blast
  from coordinates_consumed[OF assms(1,2,3) tok]
  have "processTokens (with_coordinates ?cb ?ce (set_nulls False ?m0)) obs = (None, mA)" by simp
  from processTokens_null[OF assms(2,3) this] obtain m2A where
    tok0: "processTokens ?m0 obs = (None, m2A)"
    and mA: "mA = with_coordinates ?cb ?ce (set_nulls False m2A)" and w: "writingNulls m2A"
    by auto
  from compute_null[OF cmp[unfolded mA] w] obtain m2 r l where
    c0: "computeAndWriteMetric m2A = Inr m2"
    and nul: "ofsNullValues_of m2 = ofsNullValues_of m2A @ [r]"
    and ob: "ofsObs_of m1 = ofsObs_of m2A @ [l]" and rv: "obs_retVal l = r" by blast
  from processTokens_keeps[OF tok0] have st: "streams m2A = streams m" by simp
  have "parse_lines (size_of m) ?m0 [obs] = (None, m2)"
    using assms(4) tok0 c0 len by simp
  then have "parseInputWriteOutput ?m0 [obs] = (None, m2)"
    by (simp add: parseInputWriteOutput_def numExpected_of_def)
  with nul ob rv st show ?thesis by (auto simp: ofsNullValues_of_def ofsObs_of_def)
qed


text \<open>
  Claim C7. In every variant, on the same accumulated observations: if the evaluation
  without a nulls file completes, so does the evaluation with one, and the value it
  writes to the null stream is the \<^verbatim>\<open>retVal\<close> of the observations record that the other
  writes. The same holds from the tokens on: for a model at the start of a line and
  observation tokens \<open>obs\<close>, if the run without a nulls file on the line of two
  coordinates followed by \<open>obs\<close> succeeds, the run with a nulls file on the line \<open>obs\<close>
  succeeds and writes that \<^verbatim>\<open>retVal\<close>. (A coordinate token 4294967295 reads as \<open>- 1\<close>,
  the "unset" mark, and is excluded.)
\<close>

theorem null_mode_same_retVal:
  "(computeAndWriteMetric (set_nulls False m) = Inr m1 \<longrightarrow>
      (\<exists>m2 r l. computeAndWriteMetric (set_nulls True m) = Inr m2
           \<and> ofsNullValues_of m2 = ofsNullValues_of m @ [r]
           \<and> ofsObs_of m1 = ofsObs_of m @ [l] \<and> obs_retVal l = r))
   \<and> (at_line_start m' \<and> to_int32 b \<noteq> - 1 \<and> to_int32 e \<noteq> - 1 \<and> obs \<noteq> []
       \<and> size_of m' + 2 < 2 ^ 32
       \<and> parseInputWriteOutput (set_nulls False m') [b # e # obs] = (None, m1') \<longrightarrow>
      (\<exists>m2 r l. parseInputWriteOutput (set_nulls True m') [obs] = (None, m2)
           \<and> ofsNullValues_of m2 = ofsNullValues_of m' @ [r]
           \<and> ofsObs_of m1' = ofsObs_of m' @ [l] \<and> obs_retVal l = r))"
proof (intro conjI impI)
  assume "computeAndWriteMetric (set_nulls False m) = Inr m1"
  then show "\<exists>m2 r l. computeAndWriteMetric (set_nulls True m) = Inr m2
           \<and> ofsNullValues_of m2 = ofsNullValues_of m @ [r]
           \<and> ofsObs_of m1 = ofsObs_of m @ [l] \<and> obs_retVal l = r"
    by (rule null_mode_same_evaluation)
next
  assume a: "at_line_start m' \<and> to_int32 b \<noteq> - 1 \<and> to_int32 e \<noteq> - 1 \<and> obs \<noteq> []
       \<and> size_of m' + 2 < 2 ^ 32
       \<and> parseInputWriteOutput (set_nulls False m') [b # e # obs] = (None, m1')"
  then show "\<exists>m2 r l. parseInputWriteOutput (set_nulls True m') [obs] = (None, m2)
           \<and> ofsNullValues_of m2 = ofsNullValues_of m' @ [r]
           \<and> ofsObs_of m1' = ofsObs_of m' @ [l] \<and> obs_retVal l = r"
    by (intro null_mode_same_line[of m' b e obs m1']) simp_all
qed

section \<open>Concrete runs\<close>

text \<open>
  A contribution computed from a nonzero tally is never below \<open>- 999\<close>, the threshold
  at which the evaluator takes a contribution for the sentinel: a tally is an
  \<^verbatim>\<open>unsigned long\<close>, so its logarithm is at most \<open>64 ln 2\<close>.
\<close>

lemma Qcontrib_of_zero: "Qcontrib_of Nsites 0 = - 999999"
  by (simp add: Qcontrib_of_def)

lemma Qcontrib_of_not_sentinel:
  assumes "0 < Nsites" "0 < t" "t < 2 ^ 64"
  shows "\<not> Qcontrib_of Nsites t < - 999"
proof -
  have p: "(2::real) ^ 64 = 18446744073709551616" by simp
  have "real t \<le> 18446744073709551616" using assms(3) by simp
  then have "ln (real t) \<le> ln 18446744073709551616" using assms(2) by simp
  also have "ln 18446744073709551616 = ln ((2::real) ^ 64)" by (simp only: p)
  also have "\<dots> = real 64 * ln 2" by (rule ln_realpow)
  also have "\<dots> \<le> 64 * 1" using ln_le_minus_one[of 2] by simp
  finally have "ln (real t) \<le> 64" by simp
  moreover have "0 \<le> ln (real Nsites)" using assms(1) by simp
  ultimately show ?thesis using assms(2) by (simp add: Qcontrib_of_def)
qed

lemma Q5 [simp]:
  "\<not> Qcontrib_of 5 1 < - 999" "\<not> Qcontrib_of 5 2 < - 999" "\<not> Qcontrib_of 5 3 < - 999"
  "\<not> Qcontrib_of 5 4 < - 999" "\<not> Qcontrib_of 5 6 < - 999" "Qcontrib_of 5 0 = - 999999"
  by (simp_all add: Qcontrib_of_not_sentinel Qcontrib_of_zero)

text \<open>The concrete states are the ones the program reaches.\<close>

lemma KL_loaded1_reached:
  "KL_getQcontrib (KL_init False ''chr1'') [[4, 0, 6]] 5 = Inr KL_loaded1"
  by (simp add: KL_getQcontrib_def KL_init_def KL_groupSize_10_5 Let_def
      extend_logs_def KL_loaded1_def upt_rec)

lemma KL_loaded2_reached:
  "KL_getQcontrib KL_loaded1 [[3, 3, 0]] 5 = Inr KL_loaded2"
  by (simp add: KL_getQcontrib_def KL_groupSize_6_5 Let_def
      extend_logs_def KL_loaded1_def KL_loaded2_def)

lemma KL_example1_reached:
  "processTokens (KL_model KL_loaded1) [100, 200, 1, 0, 1] = (None, KL_model KL_example1)"
  by (simp add: KL_processInputValue_def KL_loaded1_def KL_example1_def to_int32_def)

lemma KL_example2_reached:
  "processTokens (KL_model KL_loaded2) [100, 200, 1, 0, 1, 0, 0, 1] = (None, KL_model KL_example2)"
  by (simp add: KL_processInputValue_def KL_loaded1_def KL_loaded2_def KL_example2_def to_int32_def)

lemma KL_example_excess_reached:
  "processTokens (KL_model KL_loaded1) [100, 200, 0, 7, 0] = (None, KL_model KL_example_excess)"
  by (simp add: KL_processInputValue_def KL_loaded1_def KL_example_excess_def to_int32_def)

lemma sqrt_values: "sqrt 25 = 5" "sqrt 9 = 3" "sqrt 4 = 2"
  using real_sqrt_abs[of 5] real_sqrt_abs[of 3] real_sqrt_abs[of 2] by simp_all

lemma pairs32_2: "pairs32 2 = 1"
  by (simp add: pairs32_def usub32_def)

lemma KLs_numStates_3: "KLs_numStates 3 = 2"
  by (simp add: KLs_numStates_def sqrt_values)

lemma KLs_numStates_3': "KLs_numStates (Suc (Suc (Suc 0))) = 2"
  using KLs_numStates_3 by (simp add: numeral_3_eq_3)

lemma decompositions_two: "unorderedStatePairDecompositions_of 2 = Inr [(1, 1), (1, 2), (2, 2)]"
proof -
  have t2: "triangular 2 = 3" by (simp add: triangular_def)
  have u: "[0..<3] = [0, 1, 2]" by (simp add: upt_rec)
  have e: "triangular 0 + 0 = 0" "triangular 1 + 0 = 1" "triangular 1 + 1 = 2"
    by (simp_all add: triangular_def)
  have d0: "decomposition_of 2 0 = (2, 2)"
    using decomposition_of_eq[of 0 0 2] unfolding e by simp
  have d1: "decomposition_of 2 1 = (1, 2)"
    using decomposition_of_eq[of 0 1 2] unfolding e by simp
  have d2: "decomposition_of 2 2 = (1, 1)"
    using decomposition_of_eq[of 1 1 2] unfolding e by simp
  have "unorderedStatePairDecompositions_of 2
      = Inr (map (\<lambda>k. decomposition_of 2 (triangular 2 - 1 - k)) [0..<triangular 2])"
    by (rule decompositions_table) simp_all
  then show ?thesis unfolding t2 u using d1 by (simp add: d0 d2)
qed

lemma KLs_loaded1_reached:
  "KLs_getQcontrib (KLs_init False ''chr1'') [[3, 1, 1]] 5 = Inr KLs_loaded1"
  by (simp add: KLs_getQcontrib_def KLs_init_def KLs_groupSize_5_5 Let_def
      extend_logs_def KLs_loaded1_def KLs_numStates_3' decompositions_two pairs32_2 sqrt_values upt_rec)

lemma KLs_loaded2_reached:
  "KLs_getQcontrib KLs_loaded1 [[0, 2, 3]] 5 = Inr KLs_loaded2"
  by (simp add: KLs_getQcontrib_def KLs_groupSize_5_5 Let_def
      extend_logs_def KLs_loaded1_def KLs_loaded2_def KLs_numStates_3' decompositions_two pairs32_2
      sqrt_values)

lemma KLs_example1_reached:
  "processTokens (KLs_model KLs_loaded1) [100, 200, 0, 1, 0] = (None, KLs_model KLs_example1)"
  by (simp add: KLs_processInputValue_def KLs_loaded1_def KLs_example1_def to_int32_def)

lemma KLs_example2_reached:
  "processTokens (KLs_model KLs_loaded2) [100, 200, 1, 0, 0, 1, 0, 0] = (None, KLs_model KLs_example2)"
  by (simp add: KLs_processInputValue_def KLs_loaded1_def KLs_loaded2_def KLs_example2_def to_int32_def)

lemma KLs_example_zero_reached:
  "processTokens (KLs_model KLs_loaded1) [100, 200, 0, 0, 0] = (None, KLs_model KLs_example_zero)"
  by (simp add: KLs_processInputValue_def KLs_loaded1_def KLs_example_zero_def to_int32_def)

lemma KLss_numStates_4n: "KLss_numStates 4 = 2"
proof -
  have a: "binary32 4 = 4" "binary32 2 = 2"
    using binary32_nat[of 4] binary32_nat[of 2] by simp_all
  have "\<lfloor>binary64 (real 2 + binary64 (1 / 100))\<rfloor> = int 2"
    by (rule floor_plus_hundredth) simp_all
  then show ?thesis by (simp add: KLss_numStates_def a sqrt_values)
qed

lemma KLss_numStates_4: "KLss_numStates (Suc (Suc (Suc (Suc 0)))) = 2"
proof -
  have a: "KLss_numStates 4 = 2" by (rule KLss_numStates_4n)
  have b: "Suc (Suc (Suc (Suc 0))) = 4" by simp
  show ?thesis by (simp only: a b)
qed

lemma KLss_groupSize_1': "KLss_groupSize (Suc 0) = 2"
  using KLss_groupSize_1 by simp

lemma pairs32_0: "pairs32 0 = 0"
  by (simp add: pairs32_def)

lemma KLss_loaded1_reached:
  "KLss_getQcontrib (KLss_init False ''chr1'') [[1, 2, 0, 2]] 5 = Inr KLss_loaded1"
proof -
  have n: "KLss_numStates 4 = 2" by (rule KLss_numStates_4n)
  have u: "[0..<4] = [0, 1, 2, 3]" by (simp add: upt_rec)
  show ?thesis
    by (simp add: KLss_getQcontrib_def KLss_init_def read_tallyMatrix_def KLss_numStates_4 n u
        KLss_groupSize_1' Let_def KLss_loaded1_def pairs32_2 pairs32_0)
qed

lemma KLss_example1_reached:
  "processTokens (KLss_model KLss_loaded1) [100, 200, 3] = (None, KLss_model KLss_example1)"
  by (simp add: KLss_processInputValue_def KLss_loaded1_def KLss_example1_def to_int32_def
      pairs32_2 statePairGroupID_of_def record_observation_def)

lemmas KL_eval_defs = KL_metric_def KL_step_def KL_term_def vec_at_def KL_denom_def
lemmas KLs_eval_defs = KLs_metric_def KLs_step_def KLs_term_def vec_at_def KLs_denom_def add_at_def
lemmas KLss_eval_defs = KLss_metric_def KLss_step_def KLss_term_def KLss_sum_def Qss_find_def
  add_at_def row_column_def

lemma KL_example1_metric: "\<exists>a. KL_metric KL_example1 = Inr a"
  by (simp add: KL_eval_defs KL_example1_def KL_loaded1_def)

lemma KLs_example2_metric: "\<exists>a. KLs_metric KLs_example2 = Inr a"
  by (simp add: KLs_eval_defs KLs_example2_def KLs_loaded2_def KLs_loaded1_def usub32_def Let_def)

lemma KLss_example1_metric: "\<exists>a. KLss_metric KLss_example1 = Inr a"
  by (simp add: KLss_eval_defs KLss_example1_def KLss_loaded1_def usub32_def Let_def)

text \<open>Claim C1 on the three concrete runs.\<close>

theorem retVal_is_sum_witness:
  "(\<exists>a ts. KL_metric KL_example1 = Inr a
        \<and> map (KL_term KL_example1) [0..<length (m_P1numerators KL_example1)] = map Inr ts
        \<and> length ts = 3 \<and> m_group2size KL_example1 = 0 \<and> retVal a = sum_list ts)
   \<and> (\<exists>a ts. KLs_metric KLs_example2 = Inr a
        \<and> map (KLs_term KLs_example2) [0..<length (m_Ps1numerators KLs_example2)] = map Inr ts
        \<and> length ts = 3 \<and> m_group2size KLs_example2 \<noteq> 0 \<and> retVal a = sum_list (map abs ts))
   \<and> (\<exists>a ts. KLss_metric KLss_example1 = Inr a
        \<and> map (KLss_term KLss_example1) (m_statePairGroupObservationsAtThisSite KLss_example1) = map Inr ts
        \<and> length ts = 1 \<and> m_group2size KLss_example1 = 0 \<and> retVal a = sum_list ts)"
proof -
  obtain a1 a2 a3 where a: "KL_metric KL_example1 = Inr a1" "KLs_metric KLs_example2 = Inr a2"
    "KLss_metric KLss_example1 = Inr a3"
    using KL_example1_metric KLs_example2_metric KLss_example1_metric by blast
  have g: "m_group2size KL_example1 = 0" "m_group2size KLs_example2 \<noteq> 0"
    "m_group2size KLss_example1 = 0"
    by (simp_all add: KL_example1_def KL_loaded1_def KLs_example2_def KLs_loaded2_def
        KLs_loaded1_def KLss_example1_def KLss_loaded1_def)
  have l: "length [0..<length (m_P1numerators KL_example1)] = 3"
    "length [0..<length (m_Ps1numerators KLs_example2)] = 3"
    "length (m_statePairGroupObservationsAtThisSite KLss_example1) = 1"
    by (simp_all add: KL_example1_def KL_loaded1_def KLs_example2_def KLs_loaded2_def
        KLs_loaded1_def KLss_example1_def KLss_loaded1_def)
  from retVal_is_sum[of KL_example1 a1 KLs_example2 a2 KLss_example1 a3] a g
  obtain ts1 ts2 ts3 where
    t1: "map (KL_term KL_example1) [0..<length (m_P1numerators KL_example1)] = map Inr ts1"
      "retVal a1 = sum_list ts1"
    and t2: "map (KLs_term KLs_example2) [0..<length (m_Ps1numerators KLs_example2)] = map Inr ts2"
      "retVal a2 = sum_list (map abs ts2)"
    and t3: "map (KLss_term KLss_example1) (m_statePairGroupObservationsAtThisSite KLss_example1) = map Inr ts3"
      "retVal a3 = sum_list ts3"
    by auto
  have "length ts1 = 3" "length ts2 = 3" "length ts3 = 1"
    using arg_cong[OF t1(1), of length] arg_cong[OF t2(1), of length] arg_cong[OF t3(1), of length] l
    by (simp_all del: upt_Suc)
  with a g t1 t2 t3 show ?thesis by blast
qed

text \<open>
  Claim C4 on concrete runs: group 1 observed the identifier too, against a background
  that is not the sentinel, and the term is \<open>999999\<close> all the same.
\<close>

theorem group2_sentinel_overrides_witness:
  "KL_term KL_example2 2 = Inr 999999 \<and> m_group2size KL_example2 \<noteq> 0
     \<and> 2 < length (m_P2numerators KL_example2) \<and> m_P2numerators KL_example2 ! 2 \<noteq> 0
     \<and> 2 < length (m_Q2contrib KL_example2) \<and> m_Q2contrib KL_example2 ! 2 = - 999999
     \<and> m_P1numerators KL_example2 ! 2 \<noteq> 0 \<and> \<not> m_Q1contrib KL_example2 ! 2 < - 999
   \<and> KLs_term KLs_example2 0 = Inr 999999 \<and> m_group2size KLs_example2 \<noteq> 0
     \<and> 0 < length (m_Ps2numerators KLs_example2) \<and> m_Ps2numerators KLs_example2 ! 0 \<noteq> 0
     \<and> 0 < length (m_Qs2contrib KLs_example2) \<and> m_Qs2contrib KLs_example2 ! 0 = - 999999
     \<and> m_Ps1numerators KLs_example2 ! 0 \<noteq> 0 \<and> \<not> m_Qs1contrib KLs_example2 ! 0 < - 999"
  using group2_sentinel_overrides[of KL_example2 2 999999 KLs_example2 0 999999]
  by (simp add: KL_term_def KLs_term_def vec_at_def KL_example2_def KL_loaded2_def KL_loaded1_def
      KLs_example2_def KLs_loaded2_def KLs_loaded1_def)

lemma KLs_example_zero_metric: "\<exists>a. KLs_metric KLs_example_zero = Inr a"
  by (simp add: KLs_eval_defs KLs_example_zero_def KLs_loaded1_def usub32_def Let_def)

lemma KLs_example_zero_terms:
  "i < length (m_Ps1numerators KLs_example_zero) \<Longrightarrow> KLs_term KLs_example_zero i = Inr 0"
proof -
  assume i: "i < length (m_Ps1numerators KLs_example_zero)"
  have "\<forall>x \<in> set (m_Ps1numerators KLs_example_zero). x = 0"
    by (simp add: KLs_example_zero_def KLs_loaded1_def)
  with i have "m_Ps1numerators KLs_example_zero ! i = 0" by (meson nth_mem)
  moreover have "m_group2size KLs_example_zero = 0" by (simp add: KLs_example_zero_def KLs_loaded1_def)
  ultimately show ?thesis using i by (simp add: KLs_term_def vec_at_def)
qed

text \<open>
  Claim C9 on the line \<open>100 200 0 0 0\<close>: every term is zero and the evaluation reads
  the table at \<open>2\<^sup>3\<^sup>2 - 1\<close>.
\<close>

theorem KLs_dominant_lookup_witness:
  "\<not> m_writeNullMetric KLs_example_zero
   \<and> length (m_unorderedStatePairDecompositions KLs_example_zero) < 2 ^ 32
   \<and> length (m_Ps1numerators KLs_example_zero) = 3
   \<and> KLs_term KLs_example_zero 0 = Inr 0 \<and> KLs_term KLs_example_zero 1 = Inr 0
   \<and> KLs_term KLs_example_zero 2 = Inr 0
   \<and> (\<exists>acc. KLs_metric KLs_example_zero = Inr acc
          \<and> statePairWithMaxTerm_1based acc = 0 \<and> KLs_dominantIndex acc = 2 ^ 32 - 1
          \<and> \<not> KLs_dominantIndex acc < length (m_unorderedStatePairDecompositions KLs_example_zero))
   \<and> KLs_computeAndWriteMetric KLs_example_zero = Inl OutOfRange"
proof -
  obtain acc where acc: "KLs_metric KLs_example_zero = Inr acc"
    using KLs_example_zero_metric by blast
  have nn: "\<not> m_writeNullMetric KLs_example_zero"
    and len: "length (m_unorderedStatePairDecompositions KLs_example_zero) < 2 ^ 32"
    and l3: "length (m_Ps1numerators KLs_example_zero) = 3"
    by (simp_all add: KLs_example_zero_def KLs_loaded1_def)
  have z: "\<forall>i < length (m_Ps1numerators KLs_example_zero). KLs_term KLs_example_zero i = Inr 0"
    using KLs_example_zero_terms by blast
  then have z3: "KLs_term KLs_example_zero 0 = Inr 0" "KLs_term KLs_example_zero 1 = Inr 0"
    "KLs_term KLs_example_zero 2 = Inr 0"
    using l3 by simp_all
  from KLs_dominant_lookup[OF nn acc len] z
  have "statePairWithMaxTerm_1based acc = 0" "KLs_dominantIndex acc = 2 ^ 32 - 1"
    "KLs_computeAndWriteMetric KLs_example_zero = Inl OutOfRange"
    "\<not> KLs_dominantIndex acc < length (m_unorderedStatePairDecompositions KLs_example_zero)"
    by auto
  with nn len l3 z3 acc show ?thesis by blast
qed

text \<open>
  Claim C10 as stated fails: on the line \<open>100 200 0 7 0\<close> the count 7 of state 2
  exceeds the group size 2, the largest index of the table, yet no read passes the end
  of the table, because the background contribution of state 2 is the sentinel and the
  table is not consulted.
\<close>

theorem log_table_counterexample:
  "processTokens (KL_model KL_loaded1) [100, 200, 0, 7, 0] = (None, KL_model KL_example_excess)
   \<and> m_group1size KL_example_excess = 2 \<and> m_group2size KL_example_excess = 0
   \<and> length (m_logsOfObservationTallies KL_example_excess) = 3
   \<and> m_P1numerators KL_example_excess ! 1 = 7
   \<and> KL_term KL_example_excess 0 = Inr 0
   \<and> KL_term KL_example_excess 1 = Inr (- 999999)
   \<and> KL_term KL_example_excess 2 = Inr 0
   \<and> KL_metric KL_example_excess \<noteq> Inl OutOfRange"
proof -
  have "m_group1size KL_example_excess = 2 \<and> m_group2size KL_example_excess = 0
   \<and> length (m_logsOfObservationTallies KL_example_excess) = 3
   \<and> m_P1numerators KL_example_excess ! 1 = 7
   \<and> KL_term KL_example_excess 0 = Inr 0
   \<and> KL_term KL_example_excess 1 = Inr (- 999999)
   \<and> KL_term KL_example_excess 2 = Inr 0
   \<and> KL_metric KL_example_excess \<noteq> Inl OutOfRange"
    by (simp add: KL_eval_defs KL_example_excess_def KL_loaded1_def)
  with KL_example_excess_reached show ?thesis by (rule conjI)
qed

text \<open>Claim C10, amended, on concrete backgrounds and lines.\<close>

theorem log_table_bounds_witness:
  "KL_getQcontrib (KL_init False ''chr1'') [[4, 0, 6]] 5 = Inr KL_loaded1
   \<and> length (m_logsOfObservationTallies KL_loaded1) = m_group1size KL_loaded1 + 1
   \<and> m_group1size KL_loaded1 \<noteq> 0
   \<and> KL_getQcontrib KL_loaded1 [[3, 3, 0]] 5 = Inr KL_loaded2 \<and> m_group2size KL_loaded2 \<noteq> 0
   \<and> length (m_logsOfObservationTallies KL_loaded2)
        = max (m_group1size KL_loaded2) (m_group2size KL_loaded2) + 1
   \<and> 2 < length (m_P1numerators KL_example2) \<and> 2 < length (m_Q1contrib KL_example2)
   \<and> 2 < length (m_P2numerators KL_example2) \<and> 2 < length (m_Q2contrib KL_example2)
   \<and> m_P1numerators KL_example2 ! 2 < length (m_logsOfObservationTallies KL_example2)
   \<and> (\<exists>t. KL_term KL_example2 2 = Inr t)
   \<and> KLs_getQcontrib (KLs_init False ''chr1'') [[3, 1, 1]] 5 = Inr KLs_loaded1
   \<and> length (m_logsOfObservationTallies_s KLs_loaded1) = pairs32 (m_group1size KLs_loaded1) + 1
   \<and> m_group1size KLs_loaded1 \<noteq> 0
   \<and> KLs_getQcontrib KLs_loaded1 [[0, 2, 3]] 5 = Inr KLs_loaded2 \<and> m_group2size KLs_loaded2 \<noteq> 0
   \<and> length (m_logsOfObservationTallies_s KLs_loaded2)
        = max (pairs32 (m_group1size KLs_loaded2)) (pairs32 (m_group2size KLs_loaded2)) + 1
   \<and> 1 < length (m_Ps1numerators KLs_example1) \<and> 1 < length (m_Qs1contrib KLs_example1)
   \<and> m_Ps1numerators KLs_example1 ! 1 < length (m_logsOfObservationTallies_s KLs_example1)
   \<and> (\<exists>t. KLs_term KLs_example1 1 = Inr t)"
proof -
  note b = log_table_bounds[where nulls = False and chrom = "''chr1''" and ?line1.0 = "[4, 0, 6]"
      and Nsites = 5 and ?s1.0 = KL_loaded1 and ?line2.0 = "[3, 3, 0]" and ?s2.0 = KL_loaded2
      and i = 2 and st = KL_example2
      and ?nulls2.0 = False and ?chrom2.0 = "''chr1''" and ?line3.0 = "[3, 1, 1]"
      and ?Nsites2.0 = 5 and ?r1.0 = KLs_loaded1 and ?line4.0 = "[0, 2, 3]" and ?r2.0 = KLs_loaded2
      and j = 1 and rt = KLs_example1]
  have f: "m_group1size KL_loaded1 \<noteq> 0" "m_group2size KL_loaded2 \<noteq> 0"
    "m_group1size KLs_loaded1 \<noteq> 0" "m_group2size KLs_loaded2 \<noteq> 0"
    "2 < length (m_P1numerators KL_example2)" "2 < length (m_Q1contrib KL_example2)"
    "2 < length (m_P2numerators KL_example2)" "2 < length (m_Q2contrib KL_example2)"
    "m_P1numerators KL_example2 ! 2 < length (m_logsOfObservationTallies KL_example2)"
    "m_P2numerators KL_example2 ! 2 \<noteq> 0" "m_Q2contrib KL_example2 ! 2 < - 999"
    "1 < length (m_Ps1numerators KLs_example1)" "1 < length (m_Qs1contrib KLs_example1)"
    "m_Ps1numerators KLs_example1 ! 1 < length (m_logsOfObservationTallies_s KLs_example1)"
    "m_group2size KLs_example1 = 0"
    by (simp_all add: KL_loaded1_def KL_loaded2_def KLs_loaded1_def KLs_loaded2_def
        KL_example2_def KLs_example1_def)
  from b f KL_loaded1_reached KL_loaded2_reached KLs_loaded1_reached KLs_loaded2_reached
  show ?thesis by simp
qed

lemma max_element_abs_cons: "\<exists>k. max_element_abs (x # xs) = Inr k"
  by (simp add: max_element_abs_def)

lemma KL_example1_compute: "\<exists>st'. KL_computeAndWriteMetric KL_example1 = Inr st'"
proof -
  obtain a where a: "KL_metric KL_example1 = Inr a" using KL_example1_metric by blast
  have nn: "\<not> m_writeNullMetric KL_example1" by (simp add: KL_example1_def KL_loaded1_def)
  have "contribOfEachState a \<noteq> []"
    using a by (auto simp: KL_eval_defs KL_example1_def KL_loaded1_def)
  then obtain x xs where "contribOfEachState a = x # xs" by (cases "contribOfEachState a") auto
  then obtain k where "max_element_abs (contribOfEachState a) = Inr k"
    using max_element_abs_cons[of x xs] by auto
  with a nn show ?thesis by (simp add: KL_computeAndWriteMetric_def)
qed

text \<open>Claim C7 on the line \<open>100 200 1 0 1\<close> and its null-mode counterpart \<open>1 0 1\<close>.\<close>

theorem null_mode_same_retVal_witness:
  "(\<exists>m1 m2 r l. computeAndWriteMetric (set_nulls False (KL_model KL_example1)) = Inr m1
         \<and> computeAndWriteMetric (set_nulls True (KL_model KL_example1)) = Inr m2
         \<and> ofsNullValues_of m2 = ofsNullValues_of (KL_model KL_example1) @ [r]
         \<and> ofsObs_of m1 = ofsObs_of (KL_model KL_example1) @ [l] \<and> obs_retVal l = r)
   \<and> at_line_start (KL_model KL_loaded1) \<and> to_int32 100 \<noteq> - 1 \<and> to_int32 200 \<noteq> - 1
   \<and> size_of (KL_model KL_loaded1) + 2 < 2 ^ 32
   \<and> (\<exists>m1 m2 r l.
         parseInputWriteOutput (set_nulls False (KL_model KL_loaded1)) [[100, 200, 1, 0, 1]] = (None, m1)
         \<and> parseInputWriteOutput (set_nulls True (KL_model KL_loaded1)) [[1, 0, 1]] = (None, m2)
         \<and> ofsNullValues_of m2 = ofsNullValues_of (KL_model KL_loaded1) @ [r]
         \<and> ofsObs_of m1 = ofsObs_of (KL_model KL_loaded1) @ [l] \<and> obs_retVal l = r)"
proof -
  let ?M = "KL_model KL_loaded1"
  have h: "at_line_start ?M" "to_int32 100 \<noteq> - 1" "to_int32 200 \<noteq> - 1"
    "[1, 0, 1] \<noteq> ([] :: nat list)" "size_of ?M + 2 < 2 ^ 32"
    by (simp_all add: KL_loaded1_def to_int32_def)
  obtain st' where c: "KL_computeAndWriteMetric KL_example1 = Inr st'"
    using KL_example1_compute by blast
  have s: "set_nulls False ?M = ?M" by (simp add: KL_loaded1_def)
  have s1: "set_nulls False (KL_model KL_example1) = KL_model KL_example1"
    by (simp add: KL_example1_def KL_loaded1_def)
  have n: "numExpected_of ?M = 5" by (simp add: numExpected_of_def KL_loaded1_def)
  have ev: "computeAndWriteMetric (set_nulls False (KL_model KL_example1)) = Inr (KL_model st')"
    unfolding s1 using c by simp
  have run: "parseInputWriteOutput (set_nulls False ?M) [[100, 200, 1, 0, 1]] = (None, KL_model st')"
    unfolding s parseInputWriteOutput_def n using KL_example1_reached c by simp
  note t = null_mode_same_retVal[of "KL_model KL_example1" "KL_model st'" ?M 100 200 "[1, 0, 1]"
      "KL_model st'"]
  from t ev have "\<exists>m2 r l. computeAndWriteMetric (set_nulls True (KL_model KL_example1)) = Inr m2
         \<and> ofsNullValues_of m2 = ofsNullValues_of (KL_model KL_example1) @ [r]
         \<and> ofsObs_of (KL_model st') = ofsObs_of (KL_model KL_example1) @ [l] \<and> obs_retVal l = r"
    by blast
  moreover from t h run have "\<exists>m2 r l.
         parseInputWriteOutput (set_nulls True ?M) [[1, 0, 1]] = (None, m2)
         \<and> ofsNullValues_of m2 = ofsNullValues_of ?M @ [r]
         \<and> ofsObs_of (KL_model st') = ofsObs_of ?M @ [l] \<and> obs_retVal l = r"
    by blast
  ultimately show ?thesis using ev run h by blast
qed

section \<open>The driver and the number of tokens on a line\<close>

text \<open>The builder leaves the accumulators as \<open>accumulator_ok\<close> requires.\<close>

lemma KL_builder_ok:
  assumes "KL_getQcontrib (KL_init nulls chrom) [line1] Nsites = Inr s1"
  shows "accumulator_ok (KL_model s1)"
  using assms
  by (cases "KL_groupSize (sum_list line1 mod 2 ^ 64) Nsites")
     (auto simp: KL_getQcontrib_def KL_init_def Let_def split: if_splits)

lemma KL_builder_ok2:
  assumes "KL_getQcontrib (KL_init nulls chrom) [line1] Nsites = Inr s1" "m_group1size s1 \<noteq> 0"
    "KL_getQcontrib s1 [line2] Nsites = Inr s2"
  shows "accumulator_ok (KL_model s2)"
proof -
  have s1: "m_numValsProcessedForGroup1 s1 = 0" "m_numValsProcessedForGroup2 s1 = 0"
    "length (m_P1numerators s1) = m_numStates s1" "m_Q2contrib s1 = []"
    using assms(1)
    by (cases "KL_groupSize (sum_list line1 mod 2 ^ 64) Nsites";
        auto simp: KL_getQcontrib_def KL_init_def Let_def split: if_splits)+
  show ?thesis using assms(2,3) s1
    by (cases "KL_groupSize (sum_list line2 mod 2 ^ 64) Nsites")
       (auto simp: KL_getQcontrib_def Let_def split: if_splits)
qed

lemma KLs_builder_ok:
  assumes "KLs_getQcontrib st [line1] Nsites = Inr s1"
    "m_numValsProcessedForGroup1 st = 0" "m_numValsProcessedForGroup2 st = 0"
  shows "accumulator_ok (KLs_model s1)"
  using assms
  by (cases "KLs_groupSize (sum_list line1 mod 2 ^ 64) Nsites";
      cases "unorderedStatePairDecompositions_of (KLs_numStates (length (m_Qs1contrib st) + length line1))";
      cases "unorderedStatePairDecompositions_of (m_numStates st)")
     (auto simp: KLs_getQcontrib_def Let_def split: if_splits)

lemma KLss_numStates_pos:
  assumes "1 \<le> numCols"
  shows "1 \<le> KLss_numStates numCols"
proof -
  define x where "x = binary32 (real numCols)"
  define s where "s = binary32 (sqrt x)"
  have "real 1 / 2 ^ 0 \<le> binary32 (real numCols)"
    using assms by (intro binary32_ge) simp_all
  then have "1\<^sup>2 \<le> x" by (simp add: x_def)
  then have "1 \<le> sqrt x" by (rule real_le_rsqrt)
  then have "real 1 / 2 ^ 0 \<le> binary32 (sqrt x)" by (intro binary32_ge) simp_all
  then have s: "1 \<le> s" by (simp add: s_def)
  have "real 1 / 2 ^ 0 \<le> binary64 (s + binary64 (1 / 100))"
    using s hundredth_bounds(1) by (intro binary64_ge) simp_all
  then have "1 \<le> \<lfloor>binary64 (s + binary64 (1 / 100))\<rfloor>" by (simp add: le_floor_iff)
  then show ?thesis unfolding KLss_numStates_def s_def x_def by linarith
qed

lemma KLss_builder_ok:
  assumes "KLss_getQcontrib st rows Nsites = Inr s1" "rows \<noteq> []" "length rows < 2 ^ 32"
    "\<forall>r \<in> set rows. length r < 2 ^ 32"
  shows "accumulator_ok (KLss_model s1)"
proof -
  from assms(1) obtain l n m where m: "read_tallyMatrix rows = Inr (l, n, m)"
    by (cases "read_tallyMatrix rows") (auto simp: KLss_getQcontrib_def)
  from read_tallyMatrix_shape[OF m assms(3,4)] assms(2) have n: "1 \<le> n" and "length m = length rows"
    by auto
  then have ne: "m \<noteq> []" using assms(2) by auto
  from n have "1 \<le> KLss_numStates n" by (rule KLss_numStates_pos)
  with assms(1) m ne show ?thesis
    by (auto simp: KLss_getQcontrib_def Let_def split: if_splits)
qed

lemma KL_processInputValue_ok:
  assumes "accumulator_ok (KL_model st)"
  shows "(KL_processInputValue st v = Inl e \<longrightarrow> is_column_count_error e)
       \<and> (KL_processInputValue st v = Inr st' \<longrightarrow> accumulator_ok (KL_model st'))"
  using assms by (auto simp: KL_processInputValue_def split: if_splits)

lemma KLs_processInputValue_ok:
  assumes "accumulator_ok (KLs_model st)"
  shows "(KLs_processInputValue st v = Inl e \<longrightarrow> is_column_count_error e)
       \<and> (KLs_processInputValue st v = Inr st' \<longrightarrow> accumulator_ok (KLs_model st'))"
  using assms by (auto simp: KLs_processInputValue_def split: if_splits)

lemma KLss_processInputValue_ok:
  assumes "accumulator_ok (KLss_model st)"
  shows "(KLss_processInputValue st v = Inl e \<longrightarrow> is_column_count_error e)
       \<and> (KLss_processInputValue st v = Inr st' \<longrightarrow> accumulator_ok (KLss_model st'))"
  using assms by (auto simp: KLss_processInputValue_def Let_def split: if_splits)

lemma processInputValue_ok:
  assumes "accumulator_ok m"
  shows "(processInputValue m v = Inl e \<longrightarrow> is_column_count_error e)
       \<and> (processInputValue m v = Inr m' \<longrightarrow> accumulator_ok m')"
proof (cases m)
  case (KL_model st)
  show ?thesis
  proof (cases "KL_processInputValue st v")
    case (Inl e')
    with KL_model KL_processInputValue_ok[OF assms[unfolded KL_model], of v e' st] show ?thesis by auto
  next
    case (Inr s')
    with KL_model KL_processInputValue_ok[OF assms[unfolded KL_model], of v e s'] show ?thesis by auto
  qed
next
  case (KLs_model st)
  show ?thesis
  proof (cases "KLs_processInputValue st v")
    case (Inl e')
    with KLs_model KLs_processInputValue_ok[OF assms[unfolded KLs_model], of v e' st] show ?thesis by auto
  next
    case (Inr s')
    with KLs_model KLs_processInputValue_ok[OF assms[unfolded KLs_model], of v e s'] show ?thesis by auto
  qed
next
  case (KLss_model st)
  show ?thesis
  proof (cases "KLss_processInputValue st v")
    case (Inl e')
    with KLss_model KLss_processInputValue_ok[OF assms[unfolded KLss_model], of v e' st] show ?thesis by auto
  next
    case (Inr s')
    with KLss_model KLss_processInputValue_ok[OF assms[unfolded KLss_model], of v e s'] show ?thesis by auto
  qed
qed

lemma processTokens_ok:
  "accumulator_ok m \<Longrightarrow> processTokens m vs = (r, m') \<Longrightarrow>
     accumulator_ok m' \<and> (\<forall>e. r = Some e \<longrightarrow> is_column_count_error e)"
proof (induction vs arbitrary: m)
  case Nil
  then show ?case by simp
next
  case (Cons v vs)
  show ?case
  proof (cases "processInputValue m v")
    case (Inl e)
    with Cons.prems processInputValue_ok[OF Cons.prems(1), of v e] show ?thesis by auto
  next
    case (Inr m1)
    with Cons.prems have "processTokens m1 vs = (r, m')" by simp
    moreover have "accumulator_ok m1" using processInputValue_ok[OF Cons.prems(1), of v _ m1] Inr by simp
    ultimately show ?thesis using Cons.IH by blast
  qed
qed

lemma wrong_count_line_fails:
  assumes "tokens \<noteq> []" "length tokens \<noteq> n" "accumulator_ok m"
  shows "\<exists>e m1. parse_lines n m (tokens # rest) = (Some e, m1) \<and> is_column_count_error e
           \<and> streams m1 = streams m"
proof -
  obtain r m1 where p: "processTokens m tokens = (r, m1)" by (cases "processTokens m tokens")
  from processTokens_keeps[OF p] have s: "streams m1 = streams m" by simp
  show ?thesis
  proof (cases r)
    case None
    with p assms(1,2) have "parse_lines n m (tokens # rest) = (Some (ColumnCount n (length tokens)), m1)"
      by simp
    with s show ?thesis by simp
  next
    case (Some e)
    with processTokens_ok[OF assms(3) p] have "is_column_count_error e" by simp
    moreover from Some p assms(1) have "parse_lines n m (tokens # rest) = (Some e, m1)" by simp
    ultimately show ?thesis using s by simp
  qed
qed

lemma KL_compute_ok:
  "accumulator_ok (KL_model st) \<Longrightarrow> KL_computeAndWriteMetric st = Inr st' \<Longrightarrow> accumulator_ok (KL_model st')"
  by (auto simp: KL_computeAndWriteMetric_def KL_reset_def bindE_def split: sum.splits if_splits)

lemma KLs_compute_ok:
  "accumulator_ok (KLs_model st) \<Longrightarrow> KLs_computeAndWriteMetric st = Inr st' \<Longrightarrow> accumulator_ok (KLs_model st')"
  by (auto simp: KLs_computeAndWriteMetric_def KLs_reset_def bindE_def split: sum.splits if_splits prod.splits)

lemma KLss_compute_ok:
  "accumulator_ok (KLss_model st) \<Longrightarrow> KLss_computeAndWriteMetric st = Inr st' \<Longrightarrow> accumulator_ok (KLss_model st')"
  by (auto simp: KLss_computeAndWriteMetric_def KLss_reset_def bindE_def split: sum.splits if_splits)

lemma compute_ok:
  assumes "accumulator_ok m" "computeAndWriteMetric m = Inr m'"
  shows "accumulator_ok m'"
proof (cases m)
  case (KL_model st)
  with assms(2) obtain s' where "KL_computeAndWriteMetric st = Inr s'" "m' = KL_model s'"
    by (cases "KL_computeAndWriteMetric st") auto
  with KL_compute_ok[of st s'] assms(1) KL_model show ?thesis by simp
next
  case (KLs_model st)
  with assms(2) obtain s' where "KLs_computeAndWriteMetric st = Inr s'" "m' = KLs_model s'"
    by (cases "KLs_computeAndWriteMetric st") auto
  with KLs_compute_ok[of st s'] assms(1) KLs_model show ?thesis by simp
next
  case (KLss_model st)
  with assms(2) obtain s' where "KLss_computeAndWriteMetric st = Inr s'" "m' = KLss_model s'"
    by (cases "KLss_computeAndWriteMetric st") auto
  with KLss_compute_ok[of st s'] assms(1) KLss_model show ?thesis by simp
qed

lemma parse_lines_prefix:
  "parse_lines n m pre = (None, m1) \<Longrightarrow> accumulator_ok m
     \<Longrightarrow> parse_lines n m (pre @ ls) = parse_lines n m1 ls \<and> accumulator_ok m1"
proof (induction pre arbitrary: m)
  case Nil
  then show ?case by simp
next
  case (Cons tokens pre)
  from Cons.prems(1) have ne: "tokens \<noteq> []" by (auto split: if_splits)
  obtain r mA where p: "processTokens m tokens = (r, mA)" by (cases "processTokens m tokens")
  with Cons.prems(1) ne have r: "r = None" by (cases r) auto
  with Cons.prems(1) ne p have len: "length tokens = n" by (auto split: if_splits)
  from Cons.prems(1) ne p r len obtain mB where c: "computeAndWriteMetric mA = Inr mB"
    and rest: "parse_lines n mB pre = (None, m1)"
    by (cases "computeAndWriteMetric mA") auto
  have "accumulator_ok mA" using processTokens_ok[OF Cons.prems(2) p] by simp
  then have "accumulator_ok mB" using c by (rule compute_ok)
  from Cons.IH[OF rest this] ne p r len c show ?case by simp
qed

text \<open>
  For a line with at least one token the property of claim C5 holds: after any lines
  that were processed, a line with the wrong number of tokens ends the run with a
  column-count error and leaves the three streams as the earlier lines left them.
\<close>

lemma wrong_count_after_prefix:
  assumes "accumulator_ok m" "parseInputWriteOutput m pre = (None, m1)"
    "tokens \<noteq> []" "length tokens \<noteq> numExpected_of m"
  shows "\<exists>e m2. parseInputWriteOutput m (pre @ tokens # rest) = (Some e, m2)
           \<and> is_column_count_error e \<and> streams m2 = streams m1"
proof -
  from assms(2) have p: "parse_lines (numExpected_of m) m pre = (None, m1)"
    by (simp add: parseInputWriteOutput_def)
  from parse_lines_prefix[OF p assms(1), of "tokens # rest"]
  have "parse_lines (numExpected_of m) m (pre @ tokens # rest)
      = parse_lines (numExpected_of m) m1 (tokens # rest)" and ok: "accumulator_ok m1" by simp_all
  with wrong_count_line_fails[OF assms(3,4) ok, of rest] show ?thesis
    by (simp add: parseInputWriteOutput_def)
qed

text \<open>
  Claim C5 fails on a line without tokens: \<^verbatim>\<open>strtok\<close> returns the null pointer, which the
  \<^verbatim>\<open>do\<close> loop hands to \<^verbatim>\<open>atoi\<close> before any count is compared. The run ends there,
  undefined, with no column-count error reported.
\<close>

theorem blank_line_is_undefined:
  "parseInputWriteOutput m ([] # rest) = (Some NullPointer, m)
   \<and> \<not> is_column_count_error NullPointer
   \<and> processTokens (KL_model KL_loaded1) [100, 200, 1, 0, 1] = (None, KL_model KL_example1)
   \<and> (\<exists>m1. parseInputWriteOutput (KL_model KL_loaded1) [[100, 200, 1, 0, 1]] = (None, m1)
         \<and> parseInputWriteOutput (KL_model KL_loaded1) [[100, 200, 1, 0, 1], []] = (Some NullPointer, m1))"
proof -
  let ?M = "KL_model KL_loaded1"
  obtain st' where c: "KL_computeAndWriteMetric KL_example1 = Inr st'"
    using KL_example1_compute by blast
  have n: "numExpected_of ?M = 5" by (simp add: numExpected_of_def KL_loaded1_def)
  have "parseInputWriteOutput ?M [[100, 200, 1, 0, 1]] = (None, KL_model st')"
    "parseInputWriteOutput ?M [[100, 200, 1, 0, 1], []] = (Some NullPointer, KL_model st')"
    unfolding parseInputWriteOutput_def n using KL_example1_reached c by simp_all
  then show ?thesis using KL_example1_reached by (simp add: parseInputWriteOutput_def)
qed

end
